theory Spec2Isabelle
  imports Main "HOL-Library.Sublist"
begin

section \<open>Constants\<close>

definition APP_NAME :: string where
  "APP_NAME = ''code_assistant_app''"

definition USER_ID :: string where
  "USER_ID = ''developer_user_01''"

definition SESSION_ID :: string where
  "SESSION_ID = ''coding_session_01''"

definition GEMINI_MODEL :: string where
  "GEMINI_MODEL = ''gemini-2.0-flash-exp''"

section \<open>Stage definitions\<close>

text \<open>
  An \<open>LlmAgent(...)\<close> of the source is a record of its keyword arguments. The
  instruction texts are the triple-quoted literals of the source, line by line, with
  their indentation and line breaks. The first three are the same text in
  \<open>gradio.py\<close> and in \<open>multi_tool_agent/agent.py\<close>; the explanation stage of
  \<open>gradio.py\<close> has two more lines than the one of \<open>agent.py\<close>.
\<close>

datatype tool = google_search

record llm_agent =
  name :: string
  model :: string
  instruction :: string
  description :: string
  output_key :: string
  tools :: "tool list"

definition code_understanding_instruction :: string where
  "code_understanding_instruction =
     ''You are a Code Understanding AI.\<newline>'' @
     ''    Based on the user's coding request, formulate a clear understanding of:\<newline>'' @
     ''    1. The programming task or problem they're trying to solve\<newline>'' @
     ''    2. The language, framework, or technologies involved\<newline>'' @
     ''    3. Any specific requirements or constraints\<newline>'' @
     ''    \<newline>'' @
     ''    If the user has provided code, analyze it to understand its purpose and structure.\<newline>'' @
     ''    If the user is reporting an error, identify what they're trying to accomplish.\<newline>'' @
     ''    \<newline>'' @
     ''    Output a concise summary of the coding task and what the user needs help with.\<newline>'' @
     ''    ''"

definition research_instruction :: string where
  "research_instruction =
     ''You are a Coding Research AI.\<newline>'' @
     ''    Take the coding task understanding from the session state under the key 'coding_task_understanding'.\<newline>'' @
     ''    \<newline>'' @
     ''    Formulate 2-3 specific search queries to find:\<newline>'' @
     ''    1. Official documentation relevant to the task\<newline>'' @
     ''    2. Code examples solving similar problems\<newline>'' @
     ''    3. Common issues or errors related to this task and their solutions\<newline>'' @
     ''    \<newline>'' @
     ''    Perform Google searches using these queries and collect the most relevant information.\<newline>'' @
     ''    Focus on recent, authoritative sources like official documentation, GitHub repositories, Stack Overflow answers, and reputable coding blogs.\<newline>'' @
     ''    \<newline>'' @
     ''    Organize this information clearly, including:\<newline>'' @
     ''    - Links to key documentation\<newline>'' @
     ''    - Code snippets that demonstrate solutions\<newline>'' @
     ''    - Explanations of common pitfalls or best practices\<newline>'' @
     ''    ''"

definition code_generation_instruction :: string where
  "code_generation_instruction =
     ''You are a Code Generation and Debugging AI.\<newline>'' @
     ''    Review the coding task understanding and research from the session state keys 'coding_task_understanding' and 'coding_research'.\<newline>'' @
     ''    \<newline>'' @
     ''    Based on this information:\<newline>'' @
     ''    \<newline>'' @
     ''    1. IF THE USER NEEDS NEW CODE:\<newline>'' @
     ''       - Generate well-structured, efficient code that solves their problem\<newline>'' @
     ''       - Include clear comments explaining key parts of the code\<newline>'' @
     ''       - Follow best practices for the language/framework\<newline>'' @
     ''       - Handle potential edge cases and errors\<newline>'' @
     ''    \<newline>'' @
     ''    2. IF THE USER HAS CODE WITH ERRORS:\<newline>'' @
     ''       - Identify the likely causes of the error\<newline>'' @
     ''       - Provide fixed code with corrections clearly marked\<newline>'' @
     ''       - Explain what was causing the error and why the fix works\<newline>'' @
     ''    \<newline>'' @
     ''    3. IF THE USER WANTS TO IMPROVE EXISTING CODE:\<newline>'' @
     ''       - Suggest optimizations for performance, readability, or maintainability\<newline>'' @
     ''       - Provide refactored code examples\<newline>'' @
     ''       - Explain the benefits of the improvements\<newline>'' @
     ''    \<newline>'' @
     ''    Output complete, executable code snippets that directly address the user's needs.\<newline>'' @
     ''    ''"

definition explanation_instruction :: string where
  "explanation_instruction =
     ''You are a Code Explanation AI.\<newline>'' @
     ''    Review the coding task understanding, research, and solution from the session state.\<newline>'' @
     ''    \<newline>'' @
     ''    Create a comprehensive but concise explanation that includes:\<newline>'' @
     ''    \<newline>'' @
     ''    1. SOLUTION OVERVIEW:\<newline>'' @
     ''       - Summarize the approach taken to solve the problem\<newline>'' @
     ''       - Explain why this approach is appropriate\<newline>'' @
     ''    \<newline>'' @
     ''    2. CODE WALKTHROUGH:\<newline>'' @
     ''       - Break down how the key parts of the code work\<newline>'' @
     ''       - Highlight important functions, methods, or patterns used\<newline>'' @
     ''    \<newline>'' @
     ''    3. LEARNING RESOURCES:\<newline>'' @
     ''       - Suggest specific documentation or tutorials for further learning\<newline>'' @
     ''       - Point out related concepts the user might want to explore\<newline>'' @
     ''    \<newline>'' @
     ''    4. NEXT STEPS:\<newline>'' @
     ''       - Suggest how the user might extend or improve the solution\<newline>'' @
     ''       - Mention potential edge cases or considerations for production use\<newline>'' @
     ''    \<newline>'' @
     ''    Make your explanation educational and helpful, assuming the user wants to understand not just what the solution is, but why it works and how they can learn from it.\<newline>'' @
     ''    \<newline>'' @
     ''    Format your response using Markdown for better readability, with code blocks for all code examples.\<newline>'' @
     ''    ''"

definition console_explanation_instruction :: string where
  "console_explanation_instruction =
     ''You are a Code Explanation AI.\<newline>'' @
     ''    Review the coding task understanding, research, and solution from the session state.\<newline>'' @
     ''    \<newline>'' @
     ''    Create a comprehensive but concise explanation that includes:\<newline>'' @
     ''    \<newline>'' @
     ''    1. SOLUTION OVERVIEW:\<newline>'' @
     ''       - Summarize the approach taken to solve the problem\<newline>'' @
     ''       - Explain why this approach is appropriate\<newline>'' @
     ''    \<newline>'' @
     ''    2. CODE WALKTHROUGH:\<newline>'' @
     ''       - Break down how the key parts of the code work\<newline>'' @
     ''       - Highlight important functions, methods, or patterns used\<newline>'' @
     ''    \<newline>'' @
     ''    3. LEARNING RESOURCES:\<newline>'' @
     ''       - Suggest specific documentation or tutorials for further learning\<newline>'' @
     ''       - Point out related concepts the user might want to explore\<newline>'' @
     ''    \<newline>'' @
     ''    4. NEXT STEPS:\<newline>'' @
     ''       - Suggest how the user might extend or improve the solution\<newline>'' @
     ''       - Mention potential edge cases or considerations for production use\<newline>'' @
     ''    \<newline>'' @
     ''    Make your explanation educational and helpful, assuming the user wants to understand not just what the solution is, but why it works and how they can learn from it.\<newline>'' @
     ''    ''"

definition code_understanding_agent :: llm_agent where
  "code_understanding_agent =
     \<lparr>name = ''CodeUnderstandingAgent'',
      model = GEMINI_MODEL,
      instruction = code_understanding_instruction,
      description = ''Understands coding problems and requirements from user queries.'',
      output_key = ''coding_task_understanding'',
      tools = [google_search]\<rparr>"

definition research_agent :: llm_agent where
  "research_agent =
     \<lparr>name = ''ResearchAgent'',
      model = GEMINI_MODEL,
      instruction = research_instruction,
      description = ''Researches coding solutions and best practices.'',
      output_key = ''coding_research'',
      tools = [google_search]\<rparr>"

definition code_generation_agent :: llm_agent where
  "code_generation_agent =
     \<lparr>name = ''CodeGenerationAgent'',
      model = GEMINI_MODEL,
      instruction = code_generation_instruction,
      description = ''Generates code solutions or provides debugging fixes.'',
      output_key = ''code_solution'',
      tools = []\<rparr>"

definition explanation_agent :: llm_agent where
  "explanation_agent =
     \<lparr>name = ''ExplanationAgent'',
      model = GEMINI_MODEL,
      instruction = explanation_instruction,
      description = ''Provides clear explanations of code solutions and concepts.'',
      output_key = ''code_explanation'',
      tools = []\<rparr>"

text \<open>The explanation stage as \<open>multi_tool_agent/agent.py\<close> declares it.\<close>

definition console_explanation_agent :: llm_agent where
  "console_explanation_agent =
     \<lparr>name = ''ExplanationAgent'',
      model = GEMINI_MODEL,
      instruction = console_explanation_instruction,
      description = ''Provides clear explanations of code solutions and concepts.'',
      output_key = ''code_explanation'',
      tools = []\<rparr>"

record sequential_agent =
  agent_name :: string
  sub_agents :: "llm_agent list"
  agent_description :: string

text \<open>\<open>root_agent\<close> of \<open>gradio.py\<close>.\<close>

definition root_agent :: sequential_agent where
  "root_agent =
     \<lparr>agent_name = ''CodeAssistantAgent'',
      sub_agents = [code_understanding_agent, research_agent, code_generation_agent,
                    explanation_agent],
      agent_description = ''A comprehensive code assistant that helps with understanding problems, researching solutions, generating code, and explaining concepts.''\<rparr>"

text \<open>\<open>root_agent\<close> of \<open>multi_tool_agent/agent.py\<close>.\<close>

definition console_root_agent :: sequential_agent where
  "console_root_agent =
     \<lparr>agent_name = ''CodeAssistantAgent'',
      sub_agents = [code_understanding_agent, research_agent, code_generation_agent,
                    console_explanation_agent],
      agent_description = ''A comprehensive code assistant that helps with understanding problems, researching solutions, generating code, and explaining concepts.''\<rparr>"

text \<open>
  Whether a text contains a key (Python's \<open>key in text\<close>), and the output-keys of
  the pipeline that the instruction text of a stage names.
\<close>

fun starts_with :: "string \<Rightarrow> string \<Rightarrow> bool" where
  "starts_with t [] = True"
| "starts_with [] (c # k) = False"
| "starts_with (d # t) (c # k) = (c = d \<and> starts_with t k)"

fun mentions :: "string \<Rightarrow> string \<Rightarrow> bool" where
  "mentions [] k = (k = [])"
| "mentions (d # t) k = (starts_with (d # t) k \<or> mentions t k)"

definition named_keys :: "llm_agent list \<Rightarrow> llm_agent \<Rightarrow> string list" where
  "named_keys stages a = filter (mentions (instruction a)) (map output_key stages)"

section \<open>Events and errors\<close>

text \<open>
  The exceptions the modelled code can raise: the three that the expression
  \<open>event.content.parts[0].text\<close> raises on an event without content, without a part
  list or with an empty part list; a failed session lookup; a run against a session
  with no record; a failure of the text-generation capability.
\<close>

datatype error =
    AttributeError
  | TypeError
  | IndexError
  | LookupFailed
  | SessionNotFound
  | CapabilityFailure string

record part =
  part_text :: "string option"

record content =
  role :: string
  parts :: "part list option"

record event =
  author :: string
  is_final_response :: bool
  content :: "content option"

text \<open>\<open>event.content.parts[0].text\<close>; the text of a part may be Python's \<open>None\<close>.\<close>

definition event_text :: "event \<Rightarrow> error + string option" where
  "event_text e =
     (case content e of
        None \<Rightarrow> Inl AttributeError
      | Some c \<Rightarrow>
          (case parts c of
             None \<Rightarrow> Inl TypeError
           | Some [] \<Rightarrow> Inl IndexError
           | Some (p # _) \<Rightarrow> Inr (part_text p)))"

section \<open>Session store\<close>

text \<open>
  A session record holds the mapping from output-key to text. The store is addressed
  by the three arguments the source passes to every store call: application name,
  user identifier, session identifier.
\<close>

record session =
  state :: "string \<rightharpoonup> string"

type_synonym session_key = "string \<times> string \<times> string"

type_synonym session_store = "session_key \<rightharpoonup> session"

text \<open>
  How the store reports a lookup of an identifier it has no record for: by raising,
  or by returning \<open>None\<close>. The source only distinguishes the two (its \<open>except\<close>
  branch runs in the first case alone), so this is a parameter of the model.
\<close>

datatype miss_behaviour = RaiseOnMiss | NoneOnMiss

text \<open>
  Modelled from the spec: the lookup of the session store (\<open>get_session\<close> of the
  framework's \<open>InMemorySessionService\<close>, which the repository imports and does not
  contain). Section 4.1: if the store has no record for a resolved id, lookup fails.
\<close>

definition get_session ::
  "miss_behaviour \<Rightarrow> session_store \<Rightarrow> session_key \<Rightarrow> error + session option"
where
  "get_session mb store k =
     (case store k of
        Some s \<Rightarrow> Inr (Some s)
      | None \<Rightarrow> (case mb of RaiseOnMiss \<Rightarrow> Inl LookupFailed | NoneOnMiss \<Rightarrow> Inr None))"

definition empty_session :: session where
  "empty_session = \<lparr>state = Map.empty\<rparr>"

text \<open>
  Modelled from the spec: \<open>create_session\<close> of the framework's session store.
  Section 4.1: initializes an empty backing session record.
\<close>

definition create_session :: "session_store \<Rightarrow> session_key \<Rightarrow> session_store" where
  "create_session store k = store(k \<mapsto> empty_session)"

section \<open>Pipeline runner\<close>

text \<open>
  The text-generation capability is an external collaborator, a parameter of the
  model: given the stage and its prompt it returns text or fails.
\<close>

record prompt =
  p_instruction :: string
  p_tools :: "tool list"
  p_query :: "string option"
  p_context :: "(string \<times> string) list"

type_synonym generate = "llm_agent \<Rightarrow> prompt \<Rightarrow> error + string"

text \<open>
  A pipeline run (section 3): the query, the stage results produced so far keyed by
  output-key, and the session state being extended; and, to state the order of the
  stages, the stages started so far with their prompts and the events emitted so far.
\<close>

record pipeline_run =
  query_text :: string
  results :: "(string \<times> string) list"
  session_state :: "string \<rightharpoonup> string"
  started :: "(string \<times> prompt) list"
  emitted :: "event list"

definition new_run :: "string \<Rightarrow> session \<Rightarrow> pipeline_run" where
  "new_run q s =
     \<lparr>query_text = q, results = [], session_state = state s, started = [], emitted = []\<rparr>"

text \<open>
  Modelled from the spec: section 4.2, the prompt of a stage is its instruction template
  with (a) the original query text (stage 1 only) and (b) the accumulated outputs of all
  previously executed stages, addressed by their output-keys.
\<close>

definition build_prompt :: "llm_agent \<Rightarrow> pipeline_run \<Rightarrow> prompt" where
  "build_prompt a r =
     \<lparr>p_instruction = instruction a,
      p_tools = tools a,
      p_query = (if started r = [] then Some (query_text r) else None),
      p_context = results r\<rparr>"

text \<open>
  Modelled from the spec: the text a stage returns reaches the caller as a
  final-response event of that stage (section 4.2: the run returns the value produced by
  the last stage).
\<close>

definition final_event :: "llm_agent \<Rightarrow> string \<Rightarrow> event" where
  "final_event a t =
     \<lparr>author = name a, is_final_response = True,
      content = Some \<lparr>role = ''model'', parts = Some [\<lparr>part_text = Some t\<rparr>]\<rparr>\<rparr>"

text \<open>
  Modelled from the spec: the Pipeline Runner of section 4.2 (the framework's
  \<open>SequentialAgent\<close> and \<open>Runner\<close>, which the repository imports and does not contain).
  For each stage of the ordered list: build the prompt, invoke the capability, store the
  returned text under the stage's output-key, continue with the next stage. A failing
  call is not caught and aborts the run (section 4.2, section 7).
\<close>

fun run_stages ::
  "generate \<Rightarrow> llm_agent list \<Rightarrow> pipeline_run \<Rightarrow> pipeline_run \<times> error option"
where
  "run_stages gen [] r = (r, None)"
| "run_stages gen (a # as) r =
     (let p = build_prompt a r;
          r1 = r\<lparr>started := started r @ [(name a, p)]\<rparr>
      in case gen a p of
           Inl e \<Rightarrow> (r1, Some e)
         | Inr t \<Rightarrow>
             run_stages gen as
               (r1\<lparr>results := results r @ [(output_key a, t)],
                   session_state := (session_state r)(output_key a \<mapsto> t),
                   emitted := emitted r @ [final_event a t]\<rparr>))"

text \<open>
  Every stage started so far was given, as the context of its prompt, the results
  produced before it started.
\<close>

definition chained :: "pipeline_run \<Rightarrow> bool" where
  "chained r = (\<forall>i<length (started r). p_context (snd (started r ! i)) = take i (results r))"

text \<open>
  What \<open>runner.run(user_id, session_id, new_message)\<close> gives the caller: the events it
  yields, the exception that ends the iteration if there is one, and the store after the
  run. The functions of the two front ends take the runner as a parameter.
\<close>

type_synonym runner =
  "session_store \<Rightarrow> string \<Rightarrow> string \<Rightarrow> string \<Rightarrow> event list \<times> error option \<times> session_store"

text \<open>
  Modelled from the spec: \<open>run(session_id, query_text)\<close> of section 4.2, for the
  \<open>Runner(agent, app_name, session_service)\<close> of the source. The run extends the state
  of the session record with that id; without a record there is no state to extend and
  the run aborts.
\<close>

definition runner_run :: "generate \<Rightarrow> sequential_agent \<Rightarrow> string \<Rightarrow> runner" where
  "runner_run gen agent app store user_id session_id q =
     (case store (app, user_id, session_id) of
        None \<Rightarrow> ([], Some SessionNotFound, store)
      | Some s \<Rightarrow>
          (let (r, failure) = run_stages gen (sub_agents agent) (new_run q s)
           in (emitted r, failure,
               store((app, user_id, session_id) \<mapsto> s\<lparr>state := session_state r\<rparr>))))"

section \<open>Web front end: session registry and query processing (gradio.py)\<close>

text \<open>
  The module-level state of \<open>gradio.py\<close>: the dictionary \<open>user_sessions\<close>, the session
  store behind \<open>session_service\<close>, and the number of identifiers drawn from \<open>uuid.uuid4\<close> so
  far. The identifier source itself is a parameter \<open>uuid4\<close>: its \<open>n\<close>-th draw as text.
\<close>

record app_state =
  user_sessions :: "string \<rightharpoonup> string"
  session_service :: session_store
  uuid_draws :: nat

definition initial_state :: app_state where
  "initial_state = \<lparr>user_sessions = Map.empty, session_service = Map.empty, uuid_draws = 0\<rparr>"

definition fresh_session_id :: "(nat \<Rightarrow> string) \<Rightarrow> app_state \<Rightarrow> string" where
  "fresh_session_id uuid4 s = ''session_'' @ uuid4 (uuid_draws s)"

definition get_session_id :: "(nat \<Rightarrow> string) \<Rightarrow> app_state \<Rightarrow> string \<Rightarrow> string \<times> app_state" where
  "get_session_id uuid4 s user_identifier =
     (case user_sessions s user_identifier of
        None \<Rightarrow>
          (fresh_session_id uuid4 s,
           s\<lparr>user_sessions := (user_sessions s)(user_identifier \<mapsto> fresh_session_id uuid4 s),
             uuid_draws := Suc (uuid_draws s)\<rparr>)
      | Some sid \<Rightarrow> (sid, s))"

definition new_session :: "(nat \<Rightarrow> string) \<Rightarrow> app_state \<Rightarrow> string \<Rightarrow> string \<times> app_state" where
  "new_session uuid4 s user_identifier =
     (let session_id = fresh_session_id uuid4 s
      in (''Created new session: '' @ session_id,
          s\<lparr>user_sessions := (user_sessions s)(user_identifier \<mapsto> session_id),
            uuid_draws := Suc (uuid_draws s),
            session_service :=
              create_session (session_service s) (APP_NAME, user_identifier, session_id)\<rparr>))"

definition FALLBACK :: string where
  "FALLBACK = ''I encountered an issue processing your request. Please try again or start a new session.''"

text \<open>
  The loop over the events: every final-response event overwrites \<open>final_response\<close>
  with the text of its first part; reading that text can raise.
\<close>

fun last_final_text :: "string option \<Rightarrow> event list \<Rightarrow> error + string option" where
  "last_final_text final_response [] = Inr final_response"
| "last_final_text final_response (e # es) =
     (if is_final_response e
      then (case event_text e of
              Inl err \<Rightarrow> Inl err
            | Inr t \<Rightarrow> last_final_text t es)
      else last_final_text final_response es)"

text \<open>Python's \<open>not final_response\<close> for a value that is a string or \<open>None\<close>.\<close>

definition falsy :: "string option \<Rightarrow> bool" where
  "falsy v = (case v of None \<Rightarrow> True | Some t \<Rightarrow> t = [])"

text \<open>
  The first part of \<open>process_code_query\<close>: the session id of the user, and the
  \<open>try\<close>/\<open>except\<close> around the lookup. The value of the lookup is not used afterwards;
  only whether it raised decides if \<open>create_session\<close> is called.
\<close>

definition ensure_session ::
  "miss_behaviour \<Rightarrow> (nat \<Rightarrow> string) \<Rightarrow> app_state \<Rightarrow> string \<Rightarrow> string \<times> app_state"
where
  "ensure_session mb uuid4 s user_identifier =
     (let (session_id, s1) = get_session_id uuid4 s user_identifier;
          k = (APP_NAME, user_identifier, session_id)
      in (session_id,
          (case get_session mb (session_service s1) k of
             Inl _ \<Rightarrow> s1\<lparr>session_service := create_session (session_service s1) k\<rparr>
           | Inr _ \<Rightarrow> s1)))"

definition process_code_query ::
  "miss_behaviour \<Rightarrow> (nat \<Rightarrow> string) \<Rightarrow> runner \<Rightarrow> app_state \<Rightarrow> string \<Rightarrow> string
     \<Rightarrow> (error + string) \<times> app_state"
where
  "process_code_query mb uuid4 run s user_query user_identifier =
     (let (session_id, s1) = ensure_session mb uuid4 s user_identifier;
          (events, failure, store2) =
             run (session_service s1) user_identifier session_id user_query;
          s2 = s1\<lparr>session_service := store2\<rparr>
      in case last_final_text (Some []) events of
           Inl err \<Rightarrow> (Inl err, s2)
         | Inr final_response \<Rightarrow>
             (case failure of
                Some err \<Rightarrow> (Inl err, s2)
              | None \<Rightarrow>
                  (Inr (if falsy final_response then FALLBACK else the final_response), s2)))"

text \<open>The runner of \<open>gradio.py\<close>: \<open>Runner(agent=root_agent, app_name=APP_NAME, ...)\<close>.\<close>

definition web_runner :: "generate \<Rightarrow> runner" where
  "web_runner gen = runner_run gen root_agent APP_NAME"

text \<open>
  A runner that leaves alone every record of the store but the one of the user and
  session identifier it is run with, under the application name of the source.
\<close>

definition local_runner :: "runner \<Rightarrow> bool" where
  "local_runner run =
     (\<forall>store user_id session_id q k.
        k \<noteq> (APP_NAME, user_id, session_id) \<longrightarrow>
        snd (snd (run store user_id session_id q)) k = store k)"

text \<open>
  The states of the web front end: the state after import, and every state that a call
  of one of the three functions leads to, whatever the arguments, the behaviour of the
  store, and the runner as long as it is a local one.
\<close>

inductive reachable :: "(nat \<Rightarrow> string) \<Rightarrow> app_state \<Rightarrow> bool"
  for uuid4 :: "nat \<Rightarrow> string"
where
  start: "reachable uuid4 initial_state"
| resolve: "reachable uuid4 s \<Longrightarrow> reachable uuid4 (snd (get_session_id uuid4 s u))"
| reset: "reachable uuid4 s \<Longrightarrow> reachable uuid4 (snd (new_session uuid4 s u))"
| query: "reachable uuid4 s \<Longrightarrow> local_runner run \<Longrightarrow>
          reachable uuid4 (snd (process_code_query mb uuid4 run s q u))"

text \<open>The session identifiers handed out so far.\<close>

definition issued :: "(nat \<Rightarrow> string) \<Rightarrow> app_state \<Rightarrow> string set" where
  "issued uuid4 s = (\<lambda>i. ''session_'' @ uuid4 i) ` {..<uuid_draws s}"

text \<open>
  The invariant of the registry: every recorded identifier has been handed out, no two
  users share one, and every record of the store is under an identifier handed out.
\<close>

definition registry_ok :: "(nat \<Rightarrow> string) \<Rightarrow> app_state \<Rightarrow> bool" where
  "registry_ok uuid4 s =
     (ran (user_sessions s) \<subseteq> issued uuid4 s \<and>
      (\<forall>u u' sid. user_sessions s u = Some sid \<longrightarrow> user_sessions s u' = Some sid \<longrightarrow> u = u') \<and>
      (\<forall>k\<in>dom (session_service s). snd (snd k) \<in> issued uuid4 s))"

section \<open>Console front end (multi_tool_agent/agent.py)\<close>

text \<open>
  The store of the console module after import: one record, created under the fixed
  user and session identifiers.
\<close>

definition console_store :: session_store where
  "console_store = create_session Map.empty (APP_NAME, USER_ID, SESSION_ID)"

definition console_runner :: "generate \<Rightarrow> runner" where
  "console_runner gen = runner_run gen console_root_agent APP_NAME"

text \<open>What \<open>print\<close> writes for a value that is a string or \<open>None\<close>.\<close>

definition py_str :: "string option \<Rightarrow> string" where
  "py_str v = (case v of None \<Rightarrow> ''None'' | Some t \<Rightarrow> t)"

text \<open>
  The loop of \<open>call_agent\<close>: for every final-response event two calls of \<open>print\<close>, the
  header and the text. The result is the list of the printed arguments and the
  exception that stops the loop, if one does.
\<close>

fun print_events :: "event list \<Rightarrow> string list \<times> error option" where
  "print_events [] = ([], None)"
| "print_events (e # es) =
     (if is_final_response e
      then (case event_text e of
              Inl err \<Rightarrow> ([], Some err)
            | Inr final_response \<Rightarrow>
                (let (out, err) = print_events es
                 in ([''\<newline>Code Assistant Response:'', py_str final_response] @ out, err)))
      else print_events es)"

record console_result =
  printed :: "string list"
  returned :: "error + unit"
  store_after :: session_store

definition call_agent :: "runner \<Rightarrow> session_store \<Rightarrow> string \<Rightarrow> console_result" where
  "call_agent run store query =
     (let (events, failure, store') = run store USER_ID SESSION_ID query;
          (out, err) = print_events events
      in \<lparr>printed = (''\<newline>User Query: '' @ query) # out,
          returned = (case err of
                        Some e \<Rightarrow> Inl e
                      | None \<Rightarrow> (case failure of Some e \<Rightarrow> Inl e | None \<Rightarrow> Inr ())),
          store_after = store'\<rparr>)"

section \<open>Stand-ins for the external collaborators\<close>

text \<open>
  Concrete collaborators, for evaluating the definitions: an identifier source that
  never repeats a value, a capability that returns the empty text, the stub of the
  spec's section 8 that returns \<open>stage:<name>\<close>, and a capability that fails at one
  stage.
\<close>

definition counting_uuid4 :: "nat \<Rightarrow> string" where
  "counting_uuid4 n = replicate (Suc n) CHR ''a''"

definition silent :: generate where
  "silent a p = Inr []"

definition stage_stub :: generate where
  "stage_stub a p = Inr (''stage:'' @ name a)"

definition failing_at :: "string \<Rightarrow> generate" where
  "failing_at stage a p =
     (if name a = stage then Inl (CapabilityFailure stage) else Inr (''stage:'' @ name a))"

text \<open>
  A runner that ends the iteration silently where the given one ends it by raising.
\<close>

definition quiet :: "runner \<Rightarrow> runner" where
  "quiet run store user_id session_id q =
     (case run store user_id session_id q of
        (events, failure, store') \<Rightarrow> (events, None, store'))"

text \<open>A runner whose only event is not a final response.\<close>

definition progress_only :: runner where
  "progress_only store user_id session_id q =
     ([\<lparr>author = ''CodeUnderstandingAgent'', is_final_response = False, content = None\<rparr>],
      None, store)"

text \<open>Two states of the web front end, for evaluating the definitions.\<close>

definition alice_state :: app_state where
  "alice_state = snd (get_session_id counting_uuid4 initial_state ''alice'')"

definition alice_asked :: app_state where
  "alice_asked =
     snd (process_code_query RaiseOnMiss counting_uuid4 (web_runner stage_stub) initial_state
            ''hello'' ''alice'')"

section \<open>Evaluation rules\<close>

lemma sub_agents_root_agent:
  "sub_agents root_agent =
     [code_understanding_agent, research_agent, code_generation_agent, explanation_agent]"
  by (simp add: root_agent_def)

lemma sub_agents_console_root_agent:
  "sub_agents console_root_agent =
     [code_understanding_agent, research_agent, code_generation_agent,
      console_explanation_agent]"
  by (simp add: console_root_agent_def)

lemma stage_names:
  "name code_understanding_agent = ''CodeUnderstandingAgent''"
  "name research_agent = ''ResearchAgent''"
  "name code_generation_agent = ''CodeGenerationAgent''"
  "name explanation_agent = ''ExplanationAgent''"
  "name console_explanation_agent = ''ExplanationAgent''"
  by (simp_all add: code_understanding_agent_def research_agent_def
        code_generation_agent_def explanation_agent_def console_explanation_agent_def)

lemma stage_output_keys:
  "output_key code_understanding_agent = ''coding_task_understanding''"
  "output_key research_agent = ''coding_research''"
  "output_key code_generation_agent = ''code_solution''"
  "output_key explanation_agent = ''code_explanation''"
  "output_key console_explanation_agent = ''code_explanation''"
  by (simp_all add: code_understanding_agent_def research_agent_def
        code_generation_agent_def explanation_agent_def console_explanation_agent_def)

lemmas registry_defs =
  ensure_session_def get_session_id_def new_session_def fresh_session_id_def
  get_session_def create_session_def empty_session_def initial_state_def APP_NAME_def

lemmas runner_defs =
  web_runner_def runner_run_def sub_agents_root_agent new_run_def build_prompt_def
  final_event_def event_text_def

section \<open>The order of the stages\<close>


lemma run_stages_chained:
  "run_stages gen as r = (r', f) \<Longrightarrow> length (started r) = length (results r) \<Longrightarrow> chained r \<Longrightarrow> chained r'"
proof (induction as arbitrary: r)
  case Nil
  then show ?case by simp
next
  case (Cons a as)
  let ?r1 = "r\<lparr>started := started r @ [(name a, build_prompt a r)]\<rparr>"
  have c1: "chained ?r1"
    using Cons.prems(2,3) by (auto simp: chained_def nth_append build_prompt_def less_Suc_eq)
  show ?case
  proof (cases "gen a (build_prompt a r)")
    case (Inl e)
    with Cons.prems have "r' = ?r1"
      by (simp add: Let_def)
    with c1 show ?thesis by simp
  next
    case (Inr t)
    let ?r2 = "r\<lparr>started := started r @ [(name a, build_prompt a r)],
                  results := results r @ [(output_key a, t)],
                  session_state := (session_state r)(output_key a \<mapsto> t),
                  emitted := emitted r @ [final_event a t]\<rparr>"
    from Cons.prems Inr have run: "run_stages gen as ?r2 = (r', f)"
      by (simp add: Let_def)
    have "chained ?r2"
      using c1 Cons.prems(2) by (auto simp: chained_def nth_append)
    with Cons.IH [OF run] Cons.prems(2) show ?thesis by simp
  qed
qed

lemma run_stages_results:
  "run_stages gen as r = (r', f) \<Longrightarrow>
   \<exists>n\<le>length as. map fst (results r') = map fst (results r) @ map output_key (take n as)
      \<and> length (started r') = length (started r) + (if f = None then n else Suc n)"
proof (induction as arbitrary: r)
  case Nil
  then show ?case by auto
next
  case (Cons a as)
  show ?case
  proof (cases "gen a (build_prompt a r)")
    case (Inl e)
    with Cons.prems have "r' = r\<lparr>started := started r @ [(name a, build_prompt a r)]\<rparr>" "f = Some e"
      by (simp_all add: Let_def)
    then show ?thesis
      by (intro exI [of _ 0]) simp
  next
    case (Inr t)
    let ?r2 = "r\<lparr>started := started r @ [(name a, build_prompt a r)],
                  results := results r @ [(output_key a, t)],
                  session_state := (session_state r)(output_key a \<mapsto> t),
                  emitted := emitted r @ [final_event a t]\<rparr>"
    from Cons.prems Inr have "run_stages gen as ?r2 = (r', f)"
      by (simp add: Let_def)
    from Cons.IH [OF this] obtain n where n: "n \<le> length as"
      "map fst (results r') = map fst (results ?r2) @ map output_key (take n as)"
      "length (started r') = length (started ?r2) + (if f = None then n else Suc n)"
      by blast
    then show ?thesis
      by (intro exI [of _ "Suc n"]) simp
  qed
qed

lemma run_stages_context_keys:
  assumes run: "run_stages gen as (new_run q s) = (r, f)" and i: "i < length (started r)"
  shows "map fst (p_context (snd (started r ! i))) = map output_key (take i as)"
proof -
  from run_stages_results [OF run] obtain n where n: "n \<le> length as"
    "map fst (results r) = map output_key (take n as)"
    "length (started r) = (if f = None then n else Suc n)"
    by (auto simp: new_run_def)
  from i n(3) have le: "i \<le> n" by (simp split: if_splits)
  have "chained r"
    by (rule run_stages_chained [OF run]) (simp_all add: new_run_def chained_def)
  with i have "p_context (snd (started r ! i)) = take i (results r)"
    by (simp add: chained_def)
  then have "map fst (p_context (snd (started r ! i))) = take i (map fst (results r))"
    by (simp add: take_map)
  also have "\<dots> = map output_key (take i as)"
    using le n(2) by (simp add: take_map min_def)
  finally show ?thesis .
qed




section \<open>The keys a prompt reads\<close>

lemma starts_with_prefix: "starts_with t k = prefix k t"
  by (induction t k rule: starts_with.induct) auto

lemma mentions_sublist: "mentions t k = sublist k t"
  by (induction t) (auto simp: starts_with_prefix sublist_Cons_right)

lemma named_keys_code_understanding:
  "named_keys (sub_agents root_agent) code_understanding_agent = []"
  by (simp add: named_keys_def sub_agents_root_agent stage_output_keys
        code_understanding_agent_def code_understanding_instruction_def)

lemma named_keys_research:
  "named_keys (sub_agents root_agent) research_agent = [''coding_task_understanding'']"
  by (simp add: named_keys_def sub_agents_root_agent stage_output_keys
        research_agent_def research_instruction_def)

lemma named_keys_code_generation:
  "named_keys (sub_agents root_agent) code_generation_agent =
     [''coding_task_understanding'', ''coding_research'']"
  by (simp add: named_keys_def sub_agents_root_agent stage_output_keys
        code_generation_agent_def code_generation_instruction_def)

lemma named_keys_explanation:
  "named_keys (sub_agents root_agent) explanation_agent = []"
  by (simp add: named_keys_def sub_agents_root_agent stage_output_keys
        explanation_agent_def explanation_instruction_def)

lemma code_generation_not_explanation_key:
  "\<not> sublist ''code_explanation'' (instruction code_generation_agent)"
proof
  assume "sublist ''code_explanation'' (instruction code_generation_agent)"
  then have "''code_explanation'' \<in> set (named_keys (sub_agents root_agent) code_generation_agent)"
    by (simp add: named_keys_def mentions_sublist sub_agents_root_agent stage_output_keys)
  then show False
    by (simp add: named_keys_code_generation)
qed

text \<open>
  C3. For every stage of the web pipeline, the output-keys its instruction names are keys
  of stages before it; the code generation stage names \<open>coding_task_understanding\<close> and
  \<open>coding_research\<close>, and its instruction does not contain \<open>code_explanation\<close>. In every
  run, the context of the prompt of the \<open>i\<close>-th stage started holds exactly the
  output-keys of the \<open>i\<close> stages before it.
\<close>

theorem prompts_read_earlier_keys:
  "(\<forall>k<length (sub_agents root_agent).
      set (named_keys (sub_agents root_agent) (sub_agents root_agent ! k))
        \<subseteq> set (map output_key (take k (sub_agents root_agent)))) \<and>
   named_keys (sub_agents root_agent) code_generation_agent =
     [''coding_task_understanding'', ''coding_research''] \<and>
   \<not> sublist ''code_explanation'' (instruction code_generation_agent) \<and>
   (\<forall>gen q s r failure i.
      run_stages gen (sub_agents root_agent) (new_run q s) = (r, failure) \<longrightarrow>
      i < length (started r) \<longrightarrow>
      map fst (p_context (snd (started r ! i))) = map output_key (take i (sub_agents root_agent)))"
proof (intro conjI allI impI)
  fix k assume "k < length (sub_agents root_agent)"
  then have "k = 0 \<or> k = 1 \<or> k = 2 \<or> k = 3"
    by (auto simp: sub_agents_root_agent)
  moreover have "sub_agents root_agent ! 0 = code_understanding_agent"
    "sub_agents root_agent ! 1 = research_agent"
    "sub_agents root_agent ! 2 = code_generation_agent"
    "sub_agents root_agent ! 3 = explanation_agent"
    by (simp_all add: sub_agents_root_agent)
  moreover have "map output_key (take 1 (sub_agents root_agent)) = [''coding_task_understanding'']"
    "map output_key (take 2 (sub_agents root_agent)) =
       [''coding_task_understanding'', ''coding_research'']"
    by (simp_all add: sub_agents_root_agent stage_output_keys)
  ultimately show "set (named_keys (sub_agents root_agent) (sub_agents root_agent ! k))
        \<subseteq> set (map output_key (take k (sub_agents root_agent)))"
    using named_keys_code_understanding named_keys_research named_keys_code_generation
      named_keys_explanation
    by (elim disjE) simp_all
next
  show "named_keys (sub_agents root_agent) code_generation_agent =
     [''coding_task_understanding'', ''coding_research'']"
    by (rule named_keys_code_generation)
next
  show "\<not> sublist ''code_explanation'' (instruction code_generation_agent)"
    by (rule code_generation_not_explanation_key)
next
  fix gen q s r failure i
  assume "run_stages gen (sub_agents root_agent) (new_run q s) = (r, failure)"
    and "i < length (started r)"
  then show "map fst (p_context (snd (started r ! i)))
      = map output_key (take i (sub_agents root_agent))"
    by (rule run_stages_context_keys)
qed

text \<open>
  The hypotheses at a concrete input: the third stage of the web pipeline, and the prompt
  it is given in a run with the stub of section 8.
\<close>

theorem prompts_read_earlier_keys_witness:
  "set (named_keys (sub_agents root_agent) (sub_agents root_agent ! 2))
     \<subseteq> set (map output_key (take 2 (sub_agents root_agent))) \<and>
   fst (started (fst (run_stages stage_stub (sub_agents root_agent)
                        (new_run ''hello'' empty_session))) ! 2) = ''CodeGenerationAgent'' \<and>
   map fst (p_context (snd (started (fst (run_stages stage_stub (sub_agents root_agent)
                                            (new_run ''hello'' empty_session))) ! 2)))
     = [''coding_task_understanding'', ''coding_research'']"
proof -
  let ?ok = "run_stages stage_stub (sub_agents root_agent) (new_run ''hello'' empty_session)"
  have ok: "?ok = (fst ?ok, snd ?ok)"
    by simp
  have k: "2 < length (sub_agents root_agent)"
    by (simp add: sub_agents_root_agent)
  have i: "2 < length (started (fst ?ok))"
    by (simp add: sub_agents_root_agent stage_stub_def new_run_def Let_def)
  have third: "fst (started (fst ?ok) ! 2) = ''CodeGenerationAgent''"
    by (simp add: sub_agents_root_agent stage_stub_def new_run_def stage_names Let_def)
  have keys: "map output_key (take 2 (sub_agents root_agent))
      = [''coding_task_understanding'', ''coding_research'']"
    by (simp add: sub_agents_root_agent stage_output_keys)
  from prompts_read_earlier_keys k ok i
  have "set (named_keys (sub_agents root_agent) (sub_agents root_agent ! 2))
     \<subseteq> set (map output_key (take 2 (sub_agents root_agent)))"
    and "map fst (p_context (snd (started (fst ?ok) ! 2)))
      = map output_key (take 2 (sub_agents root_agent))"
    by blast+
  with third keys show ?thesis
    by simp
qed

section \<open>The fallback of the web front end\<close>

lemma last_final_text_all_empty:
  "\<forall>e\<in>set evs. is_final_response e \<longrightarrow> event_text e = Inr (Some []) \<Longrightarrow>
   last_final_text (Some []) evs = Inr (Some [])"
  by (induction evs) auto

lemma FALLBACK_nonempty: "FALLBACK \<noteq> []"
  by (simp add: FALLBACK_def)

lemma process_code_query_nonempty:
  "fst (process_code_query mb uuid4 run s q u) \<noteq> Inr []"
  by (auto simp: process_code_query_def falsy_def FALLBACK_nonempty Let_def
           split: prod.splits sum.splits option.splits)

text \<open>
  C1. \<open>process_code_query\<close> never returns the empty string. When the iteration over
  the events of the run ends without an exception and every final-response event among
  them carries the empty string (in particular when there is no final-response event),
  it returns exactly the fixed fallback message.
\<close>

theorem process_code_query_fallback:
  "fst (process_code_query mb uuid4 run s q u) \<noteq> Inr [] \<and>
   (\<forall>session_id s1 events store2.
      ensure_session mb uuid4 s u = (session_id, s1) \<longrightarrow>
      run (session_service s1) u session_id q = (events, None, store2) \<longrightarrow>
      (\<forall>e\<in>set events. is_final_response e \<longrightarrow> event_text e = Inr (Some [])) \<longrightarrow>
      fst (process_code_query mb uuid4 run s q u) = Inr FALLBACK)"
proof (intro conjI allI impI)
  show "fst (process_code_query mb uuid4 run s q u) \<noteq> Inr []"
    by (rule process_code_query_nonempty)
next
  fix session_id s1 events store2
  assume "ensure_session mb uuid4 s u = (session_id, s1)"
    and "run (session_service s1) u session_id q = (events, None, store2)"
    and "\<forall>e\<in>set events. is_final_response e \<longrightarrow> event_text e = Inr (Some [])"
  then show "fst (process_code_query mb uuid4 run s q u) = Inr FALLBACK"
    by (simp add: process_code_query_def falsy_def last_final_text_all_empty)
qed

text \<open>
  The hypotheses at a concrete input: the first query of the default user, with a
  capability that returns the empty text at every stage.
\<close>

theorem process_code_query_fallback_witness:
  "map event_text
     (fst (web_runner silent
        (session_service
           (snd (ensure_session RaiseOnMiss counting_uuid4 initial_state ''default_user'')))
        ''default_user''
        (fst (ensure_session RaiseOnMiss counting_uuid4 initial_state ''default_user''))
        ''hello''))
     = [Inr (Some []), Inr (Some []), Inr (Some []), Inr (Some [])] \<and>
   fst (process_code_query RaiseOnMiss counting_uuid4 (web_runner silent) initial_state
          ''hello'' ''default_user'')
     = Inr ''I encountered an issue processing your request. Please try again or start a new session.''"
proof -
  let ?e = "ensure_session RaiseOnMiss counting_uuid4 initial_state ''default_user''"
  let ?r = "web_runner silent (session_service (snd ?e)) ''default_user'' (fst ?e) ''hello''"
  have e: "?e = (fst ?e, snd ?e)"
    by simp
  have r: "?r = (fst ?r, None, snd (snd ?r))"
    by (simp add: registry_defs runner_defs counting_uuid4_def silent_def)
  have texts: "map event_text (fst ?r) = [Inr (Some []), Inr (Some []), Inr (Some []), Inr (Some [])]"
    by (simp add: registry_defs runner_defs counting_uuid4_def silent_def)
  have finals: "\<forall>e\<in>set (fst ?r). is_final_response e \<longrightarrow> event_text e = Inr (Some [])"
    by (simp add: registry_defs runner_defs counting_uuid4_def silent_def)
  from process_code_query_fallback [of RaiseOnMiss counting_uuid4 "web_runner silent"
      initial_state "''hello''" "''default_user''"] e r finals
  have "fst (process_code_query RaiseOnMiss counting_uuid4 (web_runner silent) initial_state
          ''hello'' ''default_user'') = Inr FALLBACK"
    by blast
  with texts show ?thesis
    by (simp add: FALLBACK_def)
qed

section \<open>The registry invariant\<close>

lemma fresh_not_issued: "inj uuid4 \<Longrightarrow> fresh_session_id uuid4 s \<notin> issued uuid4 s"
  by (auto simp: fresh_session_id_def issued_def dest: injD)

lemma issued_mono: "uuid_draws s \<le> uuid_draws s' \<Longrightarrow> issued uuid4 s \<subseteq> issued uuid4 s'"
  by (auto simp: issued_def)

lemma fresh_issued_after:
  "uuid_draws s' = Suc (uuid_draws s) \<Longrightarrow> fresh_session_id uuid4 s \<in> issued uuid4 s'"
  by (auto simp: issued_def fresh_session_id_def)

lemma registry_ok_initial: "registry_ok uuid4 initial_state"
  by (simp add: registry_ok_def initial_state_def)

lemma registry_ok_fresh_unmapped:
  assumes "inj uuid4" "registry_ok uuid4 s"
  shows "user_sessions s u \<noteq> Some (fresh_session_id uuid4 s)"
    and "session_service s (app, u, fresh_session_id uuid4 s) = None"
proof -
  from assms have nf: "fresh_session_id uuid4 s \<notin> issued uuid4 s"
    by (simp add: fresh_not_issued)
  from assms(2) have "ran (user_sessions s) \<subseteq> issued uuid4 s"
    by (simp add: registry_ok_def)
  with nf show "user_sessions s u \<noteq> Some (fresh_session_id uuid4 s)"
    by (auto simp: ran_def)
  from assms(2) have "\<forall>k\<in>dom (session_service s). snd (snd k) \<in> issued uuid4 s"
    by (simp add: registry_ok_def)
  with nf show "session_service s (app, u, fresh_session_id uuid4 s) = None"
    by (cases "session_service s (app, u, fresh_session_id uuid4 s)") force+
qed

lemma registry_ok_bind:
  assumes inj: "inj uuid4" and ok: "registry_ok uuid4 s"
    and us: "user_sessions s' = (user_sessions s)(u \<mapsto> fresh_session_id uuid4 s)"
    and dr: "uuid_draws s' = Suc (uuid_draws s)"
    and st: "dom (session_service s') \<subseteq> insert (app, u', fresh_session_id uuid4 s) (dom (session_service s))"
  shows "registry_ok uuid4 s'"
proof -
  let ?f = "fresh_session_id uuid4 s"
  have sub: "issued uuid4 s \<subseteq> issued uuid4 s'" and fin: "?f \<in> issued uuid4 s'"
    using dr by (simp_all add: issued_mono fresh_issued_after)
  have nf: "\<And>v. user_sessions s v \<noteq> Some ?f"
    using registry_ok_fresh_unmapped(1) [OF inj ok] .
  have "ran (user_sessions s') \<subseteq> issued uuid4 s'"
    using ok sub fin us by (auto simp: registry_ok_def ran_def split: if_splits)
  moreover have "\<forall>a b sid. user_sessions s' a = Some sid \<longrightarrow> user_sessions s' b = Some sid \<longrightarrow> a = b"
    using ok nf us unfolding registry_ok_def by (auto split: if_splits)
  moreover have "\<forall>k\<in>dom (session_service s'). snd (snd k) \<in> issued uuid4 s'"
  proof
    fix k assume "k \<in> dom (session_service s')"
    with st have "k = (app, u', ?f) \<or> k \<in> dom (session_service s)" by auto
    with ok sub fin show "snd (snd k) \<in> issued uuid4 s'"
      by (auto simp: registry_ok_def)
  qed
  ultimately show ?thesis by (simp add: registry_ok_def)
qed

lemma registry_ok_get_session_id:
  assumes "inj uuid4" "registry_ok uuid4 s"
  shows "registry_ok uuid4 (snd (get_session_id uuid4 s u))"
proof (cases "user_sessions s u")
  case None
  show ?thesis
    by (rule registry_ok_bind [OF assms, where u = u and app = APP_NAME and u' = u])
       (auto simp: get_session_id_def None)
next
  case (Some sid)
  with assms show ?thesis by (simp add: get_session_id_def)
qed

lemma registry_ok_new_session:
  assumes "inj uuid4" "registry_ok uuid4 s"
  shows "registry_ok uuid4 (snd (new_session uuid4 s u))"
  by (rule registry_ok_bind [OF assms, where u = u and app = APP_NAME and u' = u])
     (auto simp: new_session_def create_session_def Let_def)

lemma runner_run_frame:
  assumes "runner_run gen agent app store u sid q = (evs, f, store')"
  shows "dom store' = dom store" and "k \<noteq> (app, u, sid) \<Longrightarrow> store' k = store k"
  using assms
  by (auto simp: runner_run_def Let_def split: option.splits prod.splits if_splits)

lemma process_code_query_state:
  "snd (process_code_query mb uuid4 run s q u) =
     (snd (ensure_session mb uuid4 s u))
       \<lparr>session_service :=
          snd (snd (run (session_service (snd (ensure_session mb uuid4 s u))) u
                      (fst (ensure_session mb uuid4 s u)) q))\<rparr>"
  by (simp add: process_code_query_def Let_def split: prod.splits sum.splits option.splits)

lemma ensure_session_fst:
  "fst (ensure_session mb uuid4 s u) = fst (get_session_id uuid4 s u)"
  by (simp add: ensure_session_def Let_def split: prod.splits sum.splits)

lemma ensure_session_registry:
  "user_sessions (snd (ensure_session mb uuid4 s u)) = user_sessions (snd (get_session_id uuid4 s u))"
  "uuid_draws (snd (ensure_session mb uuid4 s u)) = uuid_draws (snd (get_session_id uuid4 s u))"
  by (simp_all add: ensure_session_def Let_def split: prod.splits sum.splits)

lemma ensure_session_store:
  "session_service (snd (ensure_session mb uuid4 s u)) =
     (if session_service s (APP_NAME, u, fst (get_session_id uuid4 s u)) = None \<and> mb = RaiseOnMiss
      then (session_service s)((APP_NAME, u, fst (get_session_id uuid4 s u)) \<mapsto> empty_session)
      else session_service s)"
  by (cases mb)
     (auto simp: ensure_session_def get_session_id_def get_session_def create_session_def
           Let_def split: prod.splits sum.splits option.splits)

lemma get_session_id_store: "session_service (snd (get_session_id uuid4 s u)) = session_service s"
  by (simp add: get_session_id_def split: option.splits)

lemma get_session_id_bound:
  "user_sessions (snd (get_session_id uuid4 s u)) u = Some (fst (get_session_id uuid4 s u))"
  by (simp add: get_session_id_def split: option.splits)

lemma registry_ok_store_update:
  assumes ok: "registry_ok uuid4 s" and us: "user_sessions s' = user_sessions s"
    and dr: "uuid_draws s' = uuid_draws s"
    and st: "dom (session_service s') \<subseteq> insert (app, u, sid) (dom (session_service s))"
    and sid: "user_sessions s u' = Some sid"
  shows "registry_ok uuid4 s'"
proof -
  have iss: "issued uuid4 s' = issued uuid4 s"
    using dr by (simp add: issued_def)
  from ok sid have "sid \<in> issued uuid4 s"
    by (auto simp: registry_ok_def ran_def)
  moreover from ok have old: "\<forall>k\<in>dom (session_service s). snd (snd k) \<in> issued uuid4 s"
    by (simp add: registry_ok_def)
  ultimately have "\<forall>k\<in>dom (session_service s'). snd (snd k) \<in> issued uuid4 s"
  proof (intro ballI)
    fix k assume "k \<in> dom (session_service s')"
    with st have "k = (app, u, sid) \<or> k \<in> dom (session_service s)" by auto
    with old \<open>sid \<in> issued uuid4 s\<close> show "snd (snd k) \<in> issued uuid4 s" by auto
  qed
  with ok us iss show ?thesis
    by (simp add: registry_ok_def)
qed

lemma registry_ok_ensure_session:
  assumes "inj uuid4" "registry_ok uuid4 s"
  shows "registry_ok uuid4 (snd (ensure_session mb uuid4 s u))"
proof (rule registry_ok_store_update)
  show "registry_ok uuid4 (snd (get_session_id uuid4 s u))"
    using assms by (rule registry_ok_get_session_id)
  show "user_sessions (snd (get_session_id uuid4 s u)) u = Some (fst (get_session_id uuid4 s u))"
    by (rule get_session_id_bound)
  show "dom (session_service (snd (ensure_session mb uuid4 s u)))
          \<subseteq> insert (APP_NAME, u, fst (get_session_id uuid4 s u))
               (dom (session_service (snd (get_session_id uuid4 s u))))"
    by (auto simp: ensure_session_store get_session_id_store split: if_splits)
qed (simp_all add: ensure_session_registry)

lemma local_runnerD:
  "local_runner run \<Longrightarrow> k \<noteq> (APP_NAME, user_id, session_id) \<Longrightarrow>
   snd (snd (run store user_id session_id q)) k = store k"
  unfolding local_runner_def by blast

lemma local_runner_web_runner: "local_runner (web_runner gen)"
  unfolding local_runner_def
proof (intro allI impI)
  fix store user_id session_id q k
  let ?r = "web_runner gen store user_id session_id q"
  assume "k \<noteq> (APP_NAME, user_id, session_id)"
  moreover have "runner_run gen root_agent APP_NAME store user_id session_id q
      = (fst ?r, fst (snd ?r), snd (snd ?r))"
    by (simp add: web_runner_def)
  ultimately show "snd (snd ?r) k = store k"
    by (rule runner_run_frame(2) [rotated])
qed

lemma registry_ok_process_code_query:
  assumes "inj uuid4" "registry_ok uuid4 s" and local: "local_runner run"
  shows "registry_ok uuid4 (snd (process_code_query mb uuid4 run s q u))"
proof (rule registry_ok_store_update)
  let ?e = "ensure_session mb uuid4 s u"
  show "registry_ok uuid4 (snd ?e)"
    using assms(1,2) by (rule registry_ok_ensure_session)
  show "user_sessions (snd ?e) u = Some (fst ?e)"
    by (simp add: ensure_session_registry ensure_session_fst get_session_id_bound)
  show "dom (session_service (snd (process_code_query mb uuid4 run s q u)))
          \<subseteq> insert (APP_NAME, u, fst ?e) (dom (session_service (snd ?e)))"
  proof
    fix k assume k: "k \<in> dom (session_service (snd (process_code_query mb uuid4 run s q u)))"
    show "k \<in> insert (APP_NAME, u, fst ?e) (dom (session_service (snd ?e)))"
    proof (cases "k = (APP_NAME, u, fst ?e)")
      case True
      then show ?thesis by simp
    next
      case False
      with local have "snd (snd (run (session_service (snd ?e)) u (fst ?e) q)) k
          = session_service (snd ?e) k"
        by (rule local_runnerD)
      moreover from k obtain y where
        "snd (snd (run (session_service (snd ?e)) u (fst ?e) q)) k = Some y"
        by (auto simp: process_code_query_state)
      ultimately have "session_service (snd ?e) k = Some y"
        by simp
      then show ?thesis
        by blast
    qed
  qed
qed (simp_all add: process_code_query_state)

lemma reachable_registry_ok:
  assumes "inj uuid4" "reachable uuid4 s"
  shows "registry_ok uuid4 s"
  using assms(2)
proof induction
  case start
  show ?case by (rule registry_ok_initial)
next
  case (resolve s u)
  with assms(1) show ?case by (simp add: registry_ok_get_session_id)
next
  case (reset s u)
  with assms(1) show ?case by (simp add: registry_ok_new_session)
next
  case (query s run mb q u)
  with assms(1) show ?case by (simp add: registry_ok_process_code_query)
qed

lemma inj_counting_uuid4: "inj counting_uuid4"
proof (rule injI)
  fix m n assume "counting_uuid4 m = counting_uuid4 n"
  then have "length (counting_uuid4 m) = length (counting_uuid4 n)"
    by simp
  then show "m = n"
    by (simp add: counting_uuid4_def)
qed

lemma reachable_alice_state: "reachable counting_uuid4 alice_state"
  unfolding alice_state_def by (intro reachable.resolve reachable.start)

lemma reachable_alice_asked: "reachable counting_uuid4 alice_asked"
  unfolding alice_asked_def
  by (intro reachable.query reachable.start local_runner_web_runner)

lemma alice_state_fields:
  "user_sessions alice_state = [''alice'' \<mapsto> ''session_a'']"
  "uuid_draws alice_state = 1"
  "session_service alice_state = Map.empty"
  by (simp_all add: alice_state_def registry_defs counting_uuid4_def)

section \<open>Resolving and resetting session identifiers\<close>

text \<open>
  C5. If the user has a recorded session id, \<open>get_session_id\<close> returns it and changes
  nothing. Otherwise it returns \<open>session_\<close> followed by the next draw of the identifier
  source and records it for the user; if the source never repeats a value, then in every
  reachable state that identifier has not been handed out before, no user has it, and the
  store has no record under it.
\<close>

theorem get_session_id_resolves:
  "(\<forall>sid. user_sessions s u = Some sid \<longrightarrow> get_session_id uuid4 s u = (sid, s)) \<and>
   (user_sessions s u = None \<longrightarrow>
      fst (get_session_id uuid4 s u) = ''session_'' @ uuid4 (uuid_draws s) \<and>
      user_sessions (snd (get_session_id uuid4 s u))
        = (user_sessions s)(u \<mapsto> fst (get_session_id uuid4 s u)) \<and>
      (inj uuid4 \<longrightarrow> reachable uuid4 s \<longrightarrow>
         fst (get_session_id uuid4 s u) \<notin> issued uuid4 s \<and>
         (\<forall>u'. user_sessions s u' \<noteq> Some (fst (get_session_id uuid4 s u))) \<and>
         (\<forall>app u'. session_service s (app, u', fst (get_session_id uuid4 s u)) = None)))"
proof (intro conjI allI impI)
  fix sid assume "user_sessions s u = Some sid"
  then show "get_session_id uuid4 s u = (sid, s)"
    by (simp add: get_session_id_def)
next
  assume none: "user_sessions s u = None"
  then have sid: "fst (get_session_id uuid4 s u) = fresh_session_id uuid4 s"
    by (simp add: get_session_id_def)
  then show "fst (get_session_id uuid4 s u) = ''session_'' @ uuid4 (uuid_draws s)"
    by (simp add: fresh_session_id_def)
  from none show "user_sessions (snd (get_session_id uuid4 s u))
        = (user_sessions s)(u \<mapsto> fst (get_session_id uuid4 s u))"
    by (simp add: get_session_id_def)
  assume inj: "inj uuid4" and "reachable uuid4 s"
  then have ok: "registry_ok uuid4 s"
    by (rule reachable_registry_ok)
  from inj sid show "fst (get_session_id uuid4 s u) \<notin> issued uuid4 s"
    by (simp add: fresh_not_issued)
  fix u'
  from registry_ok_fresh_unmapped(1) [OF inj ok] sid
  show "user_sessions s u' \<noteq> Some (fst (get_session_id uuid4 s u))"
    by simp
  fix app
  from registry_ok_fresh_unmapped(2) [OF inj ok] sid
  show "session_service s (app, u', fst (get_session_id uuid4 s u)) = None"
    by simp
qed

text \<open>
  The hypotheses at concrete inputs: in the state after the first call for \<open>alice\<close>, a
  second call for \<open>alice\<close> and a first call for \<open>bob\<close>.
\<close>

theorem get_session_id_resolves_witness:
  "inj counting_uuid4 \<and> reachable counting_uuid4 alice_state \<and>
   user_sessions alice_state ''alice'' = Some ''session_a'' \<and>
   get_session_id counting_uuid4 alice_state ''alice'' = (''session_a'', alice_state) \<and>
   user_sessions alice_state ''bob'' = None \<and>
   fst (get_session_id counting_uuid4 alice_state ''bob'') = ''session_aa'' \<and>
   ''session_aa'' \<notin> issued counting_uuid4 alice_state"
proof -
  have alice: "user_sessions alice_state ''alice'' = Some ''session_a''"
    and bob: "user_sessions alice_state ''bob'' = None"
    by (simp_all add: alice_state_fields)
  note at_alice_state = get_session_id_resolves [of alice_state _ counting_uuid4]
  from at_alice_state [of "''alice''"] alice
  have "get_session_id counting_uuid4 alice_state ''alice'' = (''session_a'', alice_state)"
    by blast
  moreover from at_alice_state [of "''bob''"] bob
  have sid: "fst (get_session_id counting_uuid4 alice_state ''bob'')
      = ''session_'' @ counting_uuid4 (uuid_draws alice_state)"
    by blast
  moreover from at_alice_state [of "''bob''"] bob inj_counting_uuid4 reachable_alice_state
  have "fst (get_session_id counting_uuid4 alice_state ''bob'') \<notin> issued counting_uuid4 alice_state"
    by blast
  moreover have "''session_'' @ counting_uuid4 (uuid_draws alice_state) = ''session_aa''"
    by (simp add: alice_state_fields counting_uuid4_def)
  ultimately show ?thesis
    using alice bob inj_counting_uuid4 reachable_alice_state by simp
qed

lemma fresh_session_id_step:
  "inj uuid4 \<Longrightarrow> uuid_draws s' = Suc (uuid_draws s) \<Longrightarrow>
   fresh_session_id uuid4 s' \<noteq> fresh_session_id uuid4 s"
  by (auto simp: fresh_session_id_def dest: injD)

lemma new_session_fields:
  "user_sessions (snd (new_session uuid4 s u)) = (user_sessions s)(u \<mapsto> fresh_session_id uuid4 s)"
  "uuid_draws (snd (new_session uuid4 s u)) = Suc (uuid_draws s)"
  "session_service (snd (new_session uuid4 s u))
     = (session_service s)((APP_NAME, u, fresh_session_id uuid4 s) \<mapsto> empty_session)"
  "fst (new_session uuid4 s u) = ''Created new session: '' @ fresh_session_id uuid4 s"
  by (simp_all add: new_session_def create_session_def Let_def)

text \<open>
  C6. \<open>new_session\<close> records a fresh identifier for the user whatever was recorded
  before, reports it in its message, and creates an empty record under it. If the
  identifier source never repeats a value: the fresh identifier differs from the one
  recorded before; and of two calls in a row the second yields another identifier than
  the first, after it the identifier resolved for the user is the second one, and the
  record under it is empty.
\<close>

theorem new_session_resets:
  "user_sessions (snd (new_session uuid4 s u)) = (user_sessions s)(u \<mapsto> fresh_session_id uuid4 s) \<and>
   fst (new_session uuid4 s u) = ''Created new session: '' @ fresh_session_id uuid4 s \<and>
   session_service (snd (new_session uuid4 s u)) (APP_NAME, u, fresh_session_id uuid4 s)
     = Some empty_session \<and>
   (inj uuid4 \<longrightarrow>
      (\<forall>old. user_sessions s u = Some old \<longrightarrow> reachable uuid4 s \<longrightarrow>
          fresh_session_id uuid4 s \<noteq> old) \<and>
      (\<forall>s1 s2. s1 = snd (new_session uuid4 s u) \<longrightarrow> s2 = snd (new_session uuid4 s1 u) \<longrightarrow>
         user_sessions s1 u = Some (fresh_session_id uuid4 s) \<and>
         user_sessions s2 u = Some (fresh_session_id uuid4 s1) \<and>
         fresh_session_id uuid4 s1 \<noteq> fresh_session_id uuid4 s \<and>
         fst (new_session uuid4 s1 u) \<noteq> fst (new_session uuid4 s u) \<and>
         get_session_id uuid4 s2 u = (fresh_session_id uuid4 s1, s2) \<and>
         session_service s2 (APP_NAME, u, fresh_session_id uuid4 s1) = Some empty_session))"
proof (intro conjI impI allI)
  fix old assume inj: "inj uuid4" and "user_sessions s u = Some old" "reachable uuid4 s"
  with registry_ok_fresh_unmapped(1) [OF inj reachable_registry_ok, of s u]
  show "fresh_session_id uuid4 s \<noteq> old" by auto
next
  fix s1 s2
  assume inj: "inj uuid4" and s1: "s1 = snd (new_session uuid4 s u)"
    and s2: "s2 = snd (new_session uuid4 s1 u)"
  show "user_sessions s1 u = Some (fresh_session_id uuid4 s)"
    by (simp add: s1 new_session_fields)
  show u2: "user_sessions s2 u = Some (fresh_session_id uuid4 s1)"
    by (simp add: s2 new_session_fields)
  show ne: "fresh_session_id uuid4 s1 \<noteq> fresh_session_id uuid4 s"
    using inj by (rule fresh_session_id_step) (simp add: s1 new_session_fields)
  then show "fst (new_session uuid4 s1 u) \<noteq> fst (new_session uuid4 s u)"
    by (simp add: new_session_fields)
  from u2 show "get_session_id uuid4 s2 u = (fresh_session_id uuid4 s1, s2)"
    by (simp add: get_session_id_def)
  show "session_service s2 (APP_NAME, u, fresh_session_id uuid4 s1) = Some empty_session"
    by (simp add: s2 new_session_fields)
qed (simp_all add: new_session_fields)

text \<open>The hypotheses at a concrete input: two resets of \<open>alice\<close> from the initial state.\<close>

theorem new_session_resets_witness:
  "inj counting_uuid4 \<and>
   user_sessions (snd (new_session counting_uuid4 initial_state ''alice'')) ''alice''
     = Some ''session_a'' \<and>
   user_sessions (snd (new_session counting_uuid4
                         (snd (new_session counting_uuid4 initial_state ''alice'')) ''alice''))
     ''alice'' = Some ''session_aa'' \<and>
   fst (new_session counting_uuid4 (snd (new_session counting_uuid4 initial_state ''alice''))
          ''alice'')
     \<noteq> fst (new_session counting_uuid4 initial_state ''alice'')"
proof -
  let ?s1 = "snd (new_session counting_uuid4 initial_state ''alice'')"
  let ?s2 = "snd (new_session counting_uuid4 ?s1 ''alice'')"
  from new_session_resets [of counting_uuid4 initial_state "''alice''"] inj_counting_uuid4
  have "user_sessions ?s1 ''alice'' = Some (fresh_session_id counting_uuid4 initial_state)"
    and "user_sessions ?s2 ''alice'' = Some (fresh_session_id counting_uuid4 ?s1)"
    and "fst (new_session counting_uuid4 ?s1 ''alice'')
           \<noteq> fst (new_session counting_uuid4 initial_state ''alice'')"
    by blast+
  moreover have "fresh_session_id counting_uuid4 initial_state = ''session_a''"
    by (simp add: registry_defs counting_uuid4_def)
  moreover have "fresh_session_id counting_uuid4 ?s1 = ''session_aa''"
    by (simp add: fresh_session_id_def new_session_fields initial_state_def counting_uuid4_def)
  ultimately show ?thesis
    using inj_counting_uuid4 by simp
qed

section \<open>The session store\<close>

lemma run_stages_failure:
  "run_stages gen as r = (r', Some e) \<Longrightarrow> \<exists>a p. gen a p = Inl e"
proof (induction as arbitrary: r)
  case Nil
  then show ?case by simp
next
  case (Cons a as)
  then show ?case
    by (cases "gen a (build_prompt a r)") (auto simp: Let_def)
qed

lemma event_text_final_event: "event_text (final_event a t) = Inr (Some t)"
  by (simp add: event_text_def final_event_def)

lemma is_final_final_event: "is_final_response (final_event a t)"
  by (simp add: final_event_def)

lemma run_stages_emitted:
  "run_stages gen as r = (r', f) \<Longrightarrow>
   \<exists>ts. emitted r' = emitted r @ map (\<lambda>(a, t). final_event a t) ts"
proof (induction as arbitrary: r)
  case Nil
  then show ?case by simp
next
  case (Cons a as)
  show ?case
  proof (cases "gen a (build_prompt a r)")
    case (Inl e)
    with Cons.prems show ?thesis by (auto simp: Let_def)
  next
    case (Inr t)
    let ?r2 = "r\<lparr>started := started r @ [(name a, build_prompt a r)],
                  results := results r @ [(output_key a, t)],
                  session_state := (session_state r)(output_key a \<mapsto> t),
                  emitted := emitted r @ [final_event a t]\<rparr>"
    from Cons.prems Inr have "run_stages gen as ?r2 = (r', f)"
      by (simp add: Let_def)
    from Cons.IH [OF this] obtain ts where
      "emitted r' = emitted ?r2 @ map (\<lambda>(a, t). final_event a t) ts"
      by blast
    then have "emitted r' = emitted r @ map (\<lambda>(a, t). final_event a t) ((a, t) # ts)"
      by simp
    then show ?thesis by blast
  qed
qed

lemma last_final_text_final_events:
  "\<exists>v. last_final_text fr (map (\<lambda>(a, t). final_event a t) ts) = Inr v"
  by (induction ts arbitrary: fr) (auto simp: event_text_final_event is_final_final_event)

lemma web_runner_errors:
  assumes "web_runner gen store u sid q = (evs, f, store')"
  shows "\<exists>v. last_final_text fr evs = Inr v"
    and "f = Some e \<Longrightarrow> store (APP_NAME, u, sid) \<noteq> None \<Longrightarrow> \<exists>a p. gen a p = Inl e"
proof -
  show "\<exists>v. last_final_text fr evs = Inr v"
  proof (cases "store (APP_NAME, u, sid)")
    case None
    with assms show ?thesis by (simp add: web_runner_def runner_run_def)
  next
    case (Some s0)
    obtain r f' where run: "run_stages gen (sub_agents root_agent) (new_run q s0) = (r, f')"
      by (cases "run_stages gen (sub_agents root_agent) (new_run q s0)")
    with assms Some have "evs = emitted r"
      by (simp add: web_runner_def runner_run_def)
    moreover from run_stages_emitted [OF run] obtain ts where
      "emitted r = map (\<lambda>(a, t). final_event a t) ts"
      by (auto simp: new_run_def)
    ultimately show ?thesis by (simp add: last_final_text_final_events)
  qed
  show "\<exists>a p. gen a p = Inl e" if "f = Some e" "store (APP_NAME, u, sid) \<noteq> None"
  proof -
    from that(2) obtain s0 where Some: "store (APP_NAME, u, sid) = Some s0" by auto
    obtain r f' where run: "run_stages gen (sub_agents root_agent) (new_run q s0) = (r, f')"
      by (cases "run_stages gen (sub_agents root_agent) (new_run q s0)")
    with assms Some have "f = f'"
      by (simp add: web_runner_def runner_run_def)
    with run that(1) show ?thesis by (auto dest: run_stages_failure)
  qed
qed

lemma process_code_query_error:
  assumes "fst (process_code_query mb uuid4 (web_runner gen) s q u) = Inl e"
    and "session_service (snd (ensure_session mb uuid4 s u)) (APP_NAME, u, fst (ensure_session mb uuid4 s u)) \<noteq> None"
  shows "\<exists>a p. gen a p = Inl e"
proof -
  let ?e = "ensure_session mb uuid4 s u"
  obtain evs f store' where r: "web_runner gen (session_service (snd ?e)) u (fst ?e) q = (evs, f, store')"
    by (cases "web_runner gen (session_service (snd ?e)) u (fst ?e) q")
  from web_runner_errors(1) [OF r] obtain v where v: "last_final_text (Some []) evs = Inr v"
    by blast
  from assms(1) r v have "f = Some e"
    by (cases f) (auto simp: process_code_query_def Let_def split: prod.splits)
  with web_runner_errors(2) [OF r] assms(2) show ?thesis by blast
qed

lemma process_code_query_frame:
  assumes "local_runner run" and "k \<noteq> (APP_NAME, u, fst (get_session_id uuid4 s u))"
  shows "session_service (snd (process_code_query mb uuid4 run s q u)) k = session_service s k"
proof -
  let ?e = "ensure_session mb uuid4 s u"
  from assms(2) have "k \<noteq> (APP_NAME, u, fst ?e)"
    by (simp add: ensure_session_fst)
  with assms(1) have "snd (snd (run (session_service (snd ?e)) u (fst ?e) q)) k
      = session_service (snd ?e) k"
    by (rule local_runnerD)
  also have "\<dots> = session_service s k"
    using assms(2) by (simp add: ensure_session_store)
  finally show ?thesis
    by (simp add: process_code_query_state)
qed

lemma get_session_id_distinct:
  assumes inj: "inj uuid4" and ok: "registry_ok uuid4 s" and ne: "u1 \<noteq> u2"
  shows "fst (get_session_id uuid4 s u1)
           \<noteq> fst (get_session_id uuid4 (snd (get_session_id uuid4 s u1)) u2)"
proof -
  let ?s1 = "snd (get_session_id uuid4 s u1)"
  have ok1: "registry_ok uuid4 ?s1"
    using inj ok by (rule registry_ok_get_session_id)
  have b1: "user_sessions ?s1 u1 = Some (fst (get_session_id uuid4 s u1))"
    by (rule get_session_id_bound)
  show ?thesis
  proof (cases "user_sessions ?s1 u2")
    case None
    then have "fst (get_session_id uuid4 ?s1 u2) = fresh_session_id uuid4 ?s1"
      by (simp add: get_session_id_def)
    with registry_ok_fresh_unmapped(1) [OF inj ok1, of u1] b1 show ?thesis
      by auto
  next
    case (Some sid2)
    then have "fst (get_session_id uuid4 ?s1 u2) = sid2"
      by (simp add: get_session_id_def)
    moreover from ok1 b1 Some ne have "fst (get_session_id uuid4 s u1) \<noteq> sid2"
      unfolding registry_ok_def by blast
    ultimately show ?thesis by simp
  qed
qed

lemma web_runner_stage_stub:
  "store (APP_NAME, u, sid) = Some s0 \<Longrightarrow>
   \<exists>store'. web_runner stage_stub store u sid q =
     ([final_event code_understanding_agent ''stage:CodeUnderstandingAgent'',
       final_event research_agent ''stage:ResearchAgent'',
       final_event code_generation_agent ''stage:CodeGenerationAgent'',
       final_event explanation_agent ''stage:ExplanationAgent''], None, store')"
  by (simp add: web_runner_def runner_run_def sub_agents_root_agent stage_stub_def stage_names
        new_run_def Let_def)

lemma process_code_query_result:
  assumes "run (session_service (snd (ensure_session mb uuid4 s u))) u
             (fst (ensure_session mb uuid4 s u)) q = (evs, f, store')"
  shows "fst (process_code_query mb uuid4 run s q u) =
     (case last_final_text (Some []) evs of
        Inl err \<Rightarrow> Inl err
      | Inr final_response \<Rightarrow>
          (case f of
             Some err \<Rightarrow> Inl err
           | None \<Rightarrow> Inr (if falsy final_response then FALLBACK else the final_response)))"
proof -
  obtain sid s1 where e: "ensure_session mb uuid4 s u = (sid, s1)"
    by (cases "ensure_session mb uuid4 s u")
  with assms have "run (session_service s1) u sid q = (evs, f, store')"
    by simp
  with e show ?thesis
    by (simp add: process_code_query_def Let_def split: sum.splits option.splits)
qed

lemma process_code_query_stage_stub:
  assumes "session_service (snd (ensure_session mb uuid4 s u))
             (APP_NAME, u, fst (ensure_session mb uuid4 s u)) \<noteq> None"
  shows "fst (process_code_query mb uuid4 (web_runner stage_stub) s q u)
           = Inr ''stage:ExplanationAgent''"
proof -
  let ?e = "ensure_session mb uuid4 s u"
  from assms obtain s0 where "session_service (snd ?e) (APP_NAME, u, fst ?e) = Some s0"
    by auto
  from web_runner_stage_stub [of "session_service (snd ?e)" u "fst ?e" s0 q, OF this]
  obtain store' where
    "web_runner stage_stub (session_service (snd ?e)) u (fst ?e) q =
     ([final_event code_understanding_agent ''stage:CodeUnderstandingAgent'',
       final_event research_agent ''stage:ResearchAgent'',
       final_event code_generation_agent ''stage:CodeGenerationAgent'',
       final_event explanation_agent ''stage:ExplanationAgent''], None, store')"
    by blast
  from process_code_query_result [where run = "web_runner stage_stub", OF this] show ?thesis
    by (simp add: is_final_final_event event_text_final_event falsy_def)
qed

lemma ensure_session_after_new_session:
  "session_service (snd (ensure_session mb uuid4 (snd (new_session uuid4 s u)) u))
     (APP_NAME, u, fst (ensure_session mb uuid4 (snd (new_session uuid4 s u)) u)) \<noteq> None"
  by (simp add: ensure_session_fst ensure_session_store get_session_id_def new_session_fields)

lemma ensure_session_after_query:
  assumes "session_service (snd (ensure_session mb uuid4 s u))
             (APP_NAME, u, fst (ensure_session mb uuid4 s u)) \<noteq> None"
  shows "session_service
           (snd (ensure_session mb' uuid4 (snd (process_code_query mb uuid4 (web_runner gen) s q u)) u))
           (APP_NAME, u,
            fst (ensure_session mb' uuid4 (snd (process_code_query mb uuid4 (web_runner gen) s q u)) u))
          \<noteq> None"
proof -
  let ?e = "ensure_session mb uuid4 s u"
  let ?r = "web_runner gen (session_service (snd ?e)) u (fst ?e) q"
  let ?s' = "snd (process_code_query mb uuid4 (web_runner gen) s q u)"
  have r: "runner_run gen root_agent APP_NAME (session_service (snd ?e)) u (fst ?e) q
             = (fst ?r, fst (snd ?r), snd (snd ?r))"
    by (simp add: web_runner_def)
  have "dom (snd (snd ?r)) = dom (session_service (snd ?e))"
    by (rule runner_run_frame(1) [OF r])
  with assms have rec: "session_service ?s' (APP_NAME, u, fst ?e) \<noteq> None"
    by (auto simp: process_code_query_state)
  have "user_sessions ?s' u = Some (fst ?e)"
    by (simp add: process_code_query_state ensure_session_registry ensure_session_fst
          get_session_id_bound)
  then have "fst (get_session_id uuid4 ?s' u) = fst ?e"
    by (simp add: get_session_id_def)
  with rec show ?thesis
    by (simp add: ensure_session_fst ensure_session_store)
qed

lemma missing_record_created:
  assumes miss: "session_service s (APP_NAME, u, fst (get_session_id uuid4 s u)) = None"
  shows "session_service (snd (process_code_query RaiseOnMiss uuid4 (web_runner gen) s q u))
           (APP_NAME, u, fst (get_session_id uuid4 s u)) \<noteq> None"
proof -
  let ?sid = "fst (get_session_id uuid4 s u)"
  let ?e = "ensure_session RaiseOnMiss uuid4 s u"
  let ?r = "web_runner gen (session_service (snd ?e)) u (fst ?e) q"
  have store: "session_service (snd ?e) = (session_service s)((APP_NAME, u, ?sid) \<mapsto> empty_session)"
    using miss by (simp add: ensure_session_store)
  have r: "runner_run gen root_agent APP_NAME (session_service (snd ?e)) u (fst ?e) q
             = (fst ?r, fst (snd ?r), snd (snd ?r))"
    by (simp add: web_runner_def)
  have "dom (snd (snd ?r)) = dom (session_service (snd ?e))"
    by (rule runner_run_frame(1) [OF r])
  with store have "(APP_NAME, u, ?sid) \<in> dom (snd (snd ?r))"
    by simp
  then show ?thesis
    by (auto simp: process_code_query_state)
qed

lemma alice_asked_fields:
  "user_sessions alice_asked = [''alice'' \<mapsto> ''session_a'']"
  "uuid_draws alice_asked = 1"
  "session_service alice_asked (APP_NAME, ''alice'', ''session_a'') \<noteq> None"
  "session_service alice_asked (APP_NAME, ''bob'', ''session_aa'') = None"
proof -
  have sid: "fst (get_session_id counting_uuid4 initial_state ''alice'') = ''session_a''"
    by (simp add: registry_defs counting_uuid4_def)
  show "user_sessions alice_asked = [''alice'' \<mapsto> ''session_a'']"
    "uuid_draws alice_asked = 1"
    by (simp_all add: alice_asked_def process_code_query_state ensure_session_registry
          registry_defs counting_uuid4_def)
  have "session_service initial_state
          (APP_NAME, ''alice'', fst (get_session_id counting_uuid4 initial_state ''alice'')) = None"
    by (simp add: initial_state_def)
  from missing_record_created [OF this, of stage_stub "''hello''"]
  show "session_service alice_asked (APP_NAME, ''alice'', ''session_a'') \<noteq> None"
    unfolding alice_asked_def sid .
  have "session_service alice_asked (APP_NAME, ''bob'', ''session_aa'')
          = session_service initial_state (APP_NAME, ''bob'', ''session_aa'')"
    unfolding alice_asked_def
    by (rule process_code_query_frame) (simp_all add: local_runner_web_runner)
  then show "session_service alice_asked (APP_NAME, ''bob'', ''session_aa'') = None"
    by (simp add: initial_state_def)
qed

text \<open>
  C9. \<open>get_session_id\<close> never changes the session store. If the identifier source
  never repeats a value, then in every reachable state, for a user without a recorded
  identifier, the store has no record under the identifier returned, for any application
  and user; the recovery path of \<open>process_code_query\<close> then creates the empty record
  under that identifier.
\<close>

theorem get_session_id_leaves_store:
  "session_service (snd (get_session_id uuid4 s u)) = session_service s \<and>
   (inj uuid4 \<longrightarrow> reachable uuid4 s \<longrightarrow> user_sessions s u = None \<longrightarrow>
      (\<forall>app u'. session_service (snd (get_session_id uuid4 s u))
                  (app, u', fst (get_session_id uuid4 s u)) = None) \<and>
      session_service
        (snd (ensure_session RaiseOnMiss uuid4 (snd (get_session_id uuid4 s u)) u))
        (APP_NAME, u, fst (get_session_id uuid4 s u)) = Some empty_session)"
proof (intro conjI impI allI)
  show frame: "session_service (snd (get_session_id uuid4 s u)) = session_service s"
    by (rule get_session_id_store)
  assume inj: "inj uuid4" and reach: "reachable uuid4 s" and none: "user_sessions s u = None"
  from inj reach have ok: "registry_ok uuid4 s"
    by (rule reachable_registry_ok)
  from none have sid: "fst (get_session_id uuid4 s u) = fresh_session_id uuid4 s"
    by (simp add: get_session_id_def)
  show absent: "session_service (snd (get_session_id uuid4 s u)) (app, u', fst (get_session_id uuid4 s u)) = None"
    for app u'
    using registry_ok_fresh_unmapped(2) [OF inj ok] by (simp add: frame sid)
  let ?s' = "snd (get_session_id uuid4 s u)"
  have again: "get_session_id uuid4 ?s' u = (fst (get_session_id uuid4 s u), ?s')"
    by (simp add: get_session_id_def split: option.splits)
  with absent [of APP_NAME u]
  show "session_service (snd (ensure_session RaiseOnMiss uuid4 ?s' u))
        (APP_NAME, u, fst (get_session_id uuid4 s u)) = Some empty_session"
    by (simp add: ensure_session_store)
qed

text \<open>
  The hypotheses at a concrete input: the first call for \<open>bob\<close> after a query of
  \<open>alice\<close>.
\<close>

theorem get_session_id_leaves_store_witness:
  "inj counting_uuid4 \<and> reachable counting_uuid4 alice_asked \<and>
   user_sessions alice_asked ''bob'' = None \<and>
   fst (get_session_id counting_uuid4 alice_asked ''bob'') = ''session_aa'' \<and>
   session_service (snd (get_session_id counting_uuid4 alice_asked ''bob''))
     (APP_NAME, ''bob'', ''session_aa'') = None \<and>
   session_service (snd (get_session_id counting_uuid4 alice_asked ''bob''))
     (APP_NAME, ''alice'', ''session_a'') \<noteq> None"
proof -
  have bob: "user_sessions alice_asked ''bob'' = None"
    by (simp add: alice_asked_fields)
  have sid: "fst (get_session_id counting_uuid4 alice_asked ''bob'') = ''session_aa''"
    by (simp add: get_session_id_def fresh_session_id_def alice_asked_fields counting_uuid4_def)
  from get_session_id_leaves_store [of counting_uuid4 alice_asked "''bob''"]
    inj_counting_uuid4 reachable_alice_asked bob
  have "session_service (snd (get_session_id counting_uuid4 alice_asked ''bob''))
          (APP_NAME, ''bob'', fst (get_session_id counting_uuid4 alice_asked ''bob'')) = None"
    and "session_service (snd (get_session_id counting_uuid4 alice_asked ''bob''))
          = session_service alice_asked"
    by blast+
  with sid bob inj_counting_uuid4 reachable_alice_asked show ?thesis
    by (simp add: alice_asked_fields)
qed

text \<open>
  Recovery needs a lookup that raises. When the store has no record under the identifier
  resolved for the user and its lookup fails by raising, \<open>process_code_query\<close> creates an
  empty record under that same identifier and, whatever the runner, makes the run against
  the store that holds it. With the runner of the web front end the record is there after
  the call, and an error of the call can only be one that the capability raised.
\<close>

lemma missing_session_recovered:
  "session_service s (APP_NAME, u, fst (get_session_id uuid4 s u)) = None \<longrightarrow>
   fst (ensure_session RaiseOnMiss uuid4 s u) = fst (get_session_id uuid4 s u) \<and>
   session_service (snd (ensure_session RaiseOnMiss uuid4 s u)) =
     (session_service s)((APP_NAME, u, fst (get_session_id uuid4 s u)) \<mapsto> empty_session) \<and>
   session_service (snd (process_code_query RaiseOnMiss uuid4 run s q u)) =
     snd (snd (run ((session_service s)((APP_NAME, u, fst (get_session_id uuid4 s u))
                                          \<mapsto> empty_session))
                 u (fst (get_session_id uuid4 s u)) q)) \<and>
   session_service (snd (process_code_query RaiseOnMiss uuid4 (web_runner gen) s q u))
     (APP_NAME, u, fst (get_session_id uuid4 s u)) \<noteq> None \<and>
   (\<forall>e. fst (process_code_query RaiseOnMiss uuid4 (web_runner gen) s q u) = Inl e \<longrightarrow>
        (\<exists>a p. gen a p = Inl e))"
proof (intro impI conjI allI)
  let ?sid = "fst (get_session_id uuid4 s u)"
  let ?e = "ensure_session RaiseOnMiss uuid4 s u"
  assume miss: "session_service s (APP_NAME, u, ?sid) = None"
  show "fst ?e = ?sid"
    by (rule ensure_session_fst)
  show store: "session_service (snd ?e) = (session_service s)((APP_NAME, u, ?sid) \<mapsto> empty_session)"
    using miss by (simp add: ensure_session_store)
  then show "session_service (snd (process_code_query RaiseOnMiss uuid4 run s q u)) =
     snd (snd (run ((session_service s)((APP_NAME, u, ?sid) \<mapsto> empty_session)) u ?sid q))"
    by (simp add: process_code_query_state ensure_session_fst)
  from miss show "session_service (snd (process_code_query RaiseOnMiss uuid4 (web_runner gen) s q u))
     (APP_NAME, u, ?sid) \<noteq> None"
    by (rule missing_record_created)
  fix e assume "fst (process_code_query RaiseOnMiss uuid4 (web_runner gen) s q u) = Inl e"
  moreover have "session_service (snd ?e) (APP_NAME, u, fst ?e) \<noteq> None"
    using store by (simp add: ensure_session_fst)
  ultimately show "\<exists>a p. gen a p = Inl e"
    by (rule process_code_query_error)
qed

text \<open>The hypothesis at a concrete input: the first query of the default user.\<close>

lemma missing_session_recovered_first_query:
  "session_service initial_state
     (APP_NAME, ''default_user'', fst (get_session_id counting_uuid4 initial_state ''default_user''))
     = None \<and>
   fst (get_session_id counting_uuid4 initial_state ''default_user'') = ''session_a'' \<and>
   session_service
     (snd (process_code_query RaiseOnMiss counting_uuid4 (web_runner stage_stub) initial_state
             ''hello'' ''default_user''))
     (APP_NAME, ''default_user'', ''session_a'') \<noteq> None \<and>
   fst (process_code_query RaiseOnMiss counting_uuid4 (web_runner stage_stub) initial_state
          ''hello'' ''default_user'') = Inr ''stage:ExplanationAgent''"
proof -
  let ?sid = "fst (get_session_id counting_uuid4 initial_state ''default_user'')"
  have miss: "session_service initial_state (APP_NAME, ''default_user'', ?sid) = None"
    by (simp add: initial_state_def)
  have sid: "?sid = ''session_a''"
    by (simp add: registry_defs counting_uuid4_def)
  from missing_session_recovered [of initial_state "''default_user''" counting_uuid4
      "web_runner stage_stub" "''hello''" stage_stub] miss
  have created: "session_service (snd (ensure_session RaiseOnMiss counting_uuid4 initial_state
          ''default_user''))
        = (session_service initial_state)((APP_NAME, ''default_user'', ?sid) \<mapsto> empty_session)"
    and kept: "session_service
        (snd (process_code_query RaiseOnMiss counting_uuid4 (web_runner stage_stub) initial_state
                ''hello'' ''default_user''))
        (APP_NAME, ''default_user'', ?sid) \<noteq> None"
    by blast+
  from created
  have "fst (process_code_query RaiseOnMiss counting_uuid4 (web_runner stage_stub) initial_state
          ''hello'' ''default_user'') = Inr ''stage:ExplanationAgent''"
    by (intro process_code_query_stage_stub) (simp add: ensure_session_fst)
  with miss sid kept show ?thesis
    by simp
qed

text \<open>
  For a store whose lookup returns \<open>None\<close> for a missing record, the \<open>except\<close> branch
  does not run: no record is created, and the run against the missing record aborts.
\<close>

lemma lookup_returning_none_skips_recovery:
  assumes "session_service s (APP_NAME, u, fst (get_session_id uuid4 s u)) = None"
  shows "session_service (snd (ensure_session NoneOnMiss uuid4 s u)) = session_service s"
    and "fst (process_code_query NoneOnMiss uuid4 (web_runner gen) s q u) = Inl SessionNotFound"
proof -
  let ?e = "ensure_session NoneOnMiss uuid4 s u"
  show store: "session_service (snd ?e) = session_service s"
    by (simp add: ensure_session_store)
  with assms have "web_runner gen (session_service (snd ?e)) u (fst ?e) q
      = ([], Some SessionNotFound, session_service (snd ?e))"
    by (simp add: web_runner_def runner_run_def ensure_session_fst)
  from process_code_query_result [where run = "web_runner gen", OF this]
  show "fst (process_code_query NoneOnMiss uuid4 (web_runner gen) s q u) = Inl SessionNotFound"
    by simp
qed

text \<open>
  C4. The source means to ensure that a session exists (its comment says so), and does
  so only in its \<open>except\<close> branch. At the first query of the default user, with a store
  whose lookup returns \<open>None\<close> for a missing record, the lookup raises nothing, no
  record is created under the resolved identifier, and the run is made against a store
  without it: with the pipeline runner the run aborts and the call raises; with a runner
  that ends the iteration silently the call returns the fallback message. Either way the
  store has no record under the identifier afterwards.
\<close>

theorem missing_session_not_recovered:
  "session_service initial_state
     (APP_NAME, ''default_user'', fst (get_session_id counting_uuid4 initial_state ''default_user''))
     = None \<and>
   fst (get_session_id counting_uuid4 initial_state ''default_user'') = ''session_a'' \<and>
   session_service
     (snd (ensure_session NoneOnMiss counting_uuid4 initial_state ''default_user''))
     (APP_NAME, ''default_user'', ''session_a'') = None \<and>
   session_service
     (snd (process_code_query NoneOnMiss counting_uuid4 (web_runner stage_stub) initial_state
             ''hello'' ''default_user''))
     (APP_NAME, ''default_user'', ''session_a'') = None \<and>
   fst (process_code_query NoneOnMiss counting_uuid4 (web_runner stage_stub) initial_state
          ''hello'' ''default_user'') = Inl SessionNotFound \<and>
   session_service
     (snd (process_code_query NoneOnMiss counting_uuid4 (quiet (web_runner stage_stub))
             initial_state ''hello'' ''default_user''))
     (APP_NAME, ''default_user'', ''session_a'') = None \<and>
   fst (process_code_query NoneOnMiss counting_uuid4 (quiet (web_runner stage_stub))
          initial_state ''hello'' ''default_user'')
     = Inr ''I encountered an issue processing your request. Please try again or start a new session.''"
proof -
  let ?sid = "fst (get_session_id counting_uuid4 initial_state ''default_user'')"
  let ?e = "ensure_session NoneOnMiss counting_uuid4 initial_state ''default_user''"
  have miss: "session_service initial_state (APP_NAME, ''default_user'', ?sid) = None"
    by (simp add: initial_state_def)
  have sid: "?sid = ''session_a''"
    by (simp add: registry_defs counting_uuid4_def)
  have e1: "fst ?e = ''session_a''"
    by (simp add: ensure_session_fst sid)
  have "session_service (snd ?e) = session_service initial_state"
    by (simp add: ensure_session_store)
  then have e2: "session_service (snd ?e) = Map.empty"
    by (simp add: initial_state_def)
  note e = e1 e2
  have run: "web_runner stage_stub (session_service (snd ?e)) ''default_user'' (fst ?e) ''hello''
      = ([], Some SessionNotFound, Map.empty)"
    by (simp add: e web_runner_def runner_run_def)
  then have qrun: "quiet (web_runner stage_stub) (session_service (snd ?e)) ''default_user''
      (fst ?e) ''hello'' = ([], None, Map.empty)"
    by (simp add: quiet_def)
  have "fst (process_code_query NoneOnMiss counting_uuid4 (web_runner stage_stub) initial_state
          ''hello'' ''default_user'') = Inl SessionNotFound"
    using process_code_query_result [where run = "web_runner stage_stub", OF run] by simp
  moreover have "fst (process_code_query NoneOnMiss counting_uuid4 (quiet (web_runner stage_stub))
          initial_state ''hello'' ''default_user'') = Inr FALLBACK"
    using process_code_query_result [where run = "quiet (web_runner stage_stub)", OF qrun] by (simp add: falsy_def)
  moreover have "session_service
     (snd (process_code_query NoneOnMiss counting_uuid4 (web_runner stage_stub) initial_state
             ''hello'' ''default_user'')) = Map.empty"
    by (simp add: process_code_query_state run)
  moreover have "session_service
     (snd (process_code_query NoneOnMiss counting_uuid4 (quiet (web_runner stage_stub))
             initial_state ''hello'' ''default_user'')) = Map.empty"
    by (simp add: process_code_query_state qrun)
  ultimately show ?thesis
    using miss sid e by (simp add: FALLBACK_def)
qed

text \<open>
  C8. For two different users: if the identifier source never repeats a value, then in
  every reachable state the identifiers resolved for them, one after the other, differ;
  and with a local runner a query of one user changes no record of the store but the one
  under that user and that user's resolved identifier, so it changes no record of the
  other user. The runner of the web front end is a local one.
\<close>

theorem users_have_separate_sessions:
  "u1 \<noteq> u2 \<longrightarrow>
   (inj uuid4 \<longrightarrow> reachable uuid4 s \<longrightarrow>
      fst (get_session_id uuid4 s u1)
        \<noteq> fst (get_session_id uuid4 (snd (get_session_id uuid4 s u1)) u2)) \<and>
   (local_runner run \<longrightarrow>
      (\<forall>k. k \<noteq> (APP_NAME, u1, fst (get_session_id uuid4 s u1)) \<longrightarrow>
         session_service (snd (process_code_query mb uuid4 run s q u1)) k = session_service s k) \<and>
      (\<forall>app sid. session_service (snd (process_code_query mb uuid4 run s q u1)) (app, u2, sid)
         = session_service s (app, u2, sid)) \<and>
      (\<forall>app sid. session_service (snd (process_code_query mb uuid4 run s q u2)) (app, u1, sid)
         = session_service s (app, u1, sid))) \<and>
   local_runner (web_runner gen)"
proof (intro conjI impI allI)
  assume "u1 \<noteq> u2" "inj uuid4" "reachable uuid4 s"
  then show "fst (get_session_id uuid4 s u1)
        \<noteq> fst (get_session_id uuid4 (snd (get_session_id uuid4 s u1)) u2)"
    by (simp add: get_session_id_distinct reachable_registry_ok)
next
  fix k assume "local_runner run" "k \<noteq> (APP_NAME, u1, fst (get_session_id uuid4 s u1))"
  then show "session_service (snd (process_code_query mb uuid4 run s q u1)) k = session_service s k"
    by (rule process_code_query_frame)
next
  fix app sid assume "u1 \<noteq> u2" "local_runner run"
  then show "session_service (snd (process_code_query mb uuid4 run s q u1)) (app, u2, sid)
      = session_service s (app, u2, sid)"
    by (intro process_code_query_frame) simp_all
next
  fix app sid assume "u1 \<noteq> u2" "local_runner run"
  then show "session_service (snd (process_code_query mb uuid4 run s q u2)) (app, u1, sid)
      = session_service s (app, u1, sid)"
    by (intro process_code_query_frame) simp_all
next
  show "local_runner (web_runner gen)"
    by (rule local_runner_web_runner)
qed

text \<open>
  The hypotheses at a concrete input: \<open>bob\<close> asks after \<open>alice\<close> has asked; the record
  of \<open>alice\<close> exists and stays as it is.
\<close>

theorem users_have_separate_sessions_witness:
  "inj counting_uuid4 \<and> reachable counting_uuid4 alice_asked \<and> ''alice'' \<noteq> ''bob'' \<and>
   local_runner (web_runner stage_stub) \<and>
   fst (get_session_id counting_uuid4 alice_asked ''alice'') = ''session_a'' \<and>
   fst (get_session_id counting_uuid4
          (snd (get_session_id counting_uuid4 alice_asked ''alice'')) ''bob'') = ''session_aa'' \<and>
   fst (get_session_id counting_uuid4 alice_asked ''alice'')
     \<noteq> fst (get_session_id counting_uuid4
              (snd (get_session_id counting_uuid4 alice_asked ''alice'')) ''bob'') \<and>
   session_service alice_asked (APP_NAME, ''alice'', ''session_a'') \<noteq> None \<and>
   session_service
     (snd (process_code_query RaiseOnMiss counting_uuid4 (web_runner stage_stub) alice_asked
             ''hello'' ''bob''))
     (APP_NAME, ''alice'', ''session_a'')
     = session_service alice_asked (APP_NAME, ''alice'', ''session_a'')"
proof -
  have ne: "''alice'' \<noteq> ''bob''"
    by simp
  have a: "get_session_id counting_uuid4 alice_asked ''alice'' = (''session_a'', alice_asked)"
    by (simp add: get_session_id_def alice_asked_fields)
  have b: "fst (get_session_id counting_uuid4 alice_asked ''bob'') = ''session_aa''"
    by (simp add: get_session_id_def fresh_session_id_def alice_asked_fields counting_uuid4_def)
  note at_alice_asked = users_have_separate_sessions [of "''alice''" "''bob''" counting_uuid4
      alice_asked "web_runner stage_stub" RaiseOnMiss "''hello''" stage_stub]
  from at_alice_asked ne have loc: "local_runner (web_runner stage_stub)"
    by blast
  from at_alice_asked ne inj_counting_uuid4 reachable_alice_asked
  have "fst (get_session_id counting_uuid4 alice_asked ''alice'')
     \<noteq> fst (get_session_id counting_uuid4
              (snd (get_session_id counting_uuid4 alice_asked ''alice'')) ''bob'')"
    by blast
  moreover
  from at_alice_asked ne loc
  have "session_service
     (snd (process_code_query RaiseOnMiss counting_uuid4 (web_runner stage_stub) alice_asked
             ''hello'' ''bob''))
     (APP_NAME, ''alice'', ''session_a'')
     = session_service alice_asked (APP_NAME, ''alice'', ''session_a'')"
    by blast
  ultimately show ?thesis
    using ne a b loc inj_counting_uuid4 reachable_alice_asked by (simp add: alice_asked_fields)
qed

section \<open>The stub pipeline\<close>

text \<open>
  C7. With the stub that returns \<open>stage:<name>\<close> at every stage, a query \<open>hello\<close> on a
  freshly reset session returns \<open>stage:ExplanationAgent\<close>, the text of the last stage:
  whatever the state, the user, the identifier source and the store behaviour, so any two
  such runs return the same; and so does a second query on the same session.
\<close>

theorem stub_pipeline_deterministic:
  "fst (process_code_query mb uuid4 (web_runner stage_stub) (snd (new_session uuid4 s u))
          ''hello'' u) = Inr ''stage:ExplanationAgent'' \<and>
   fst (process_code_query mb uuid4 (web_runner stage_stub) (snd (new_session uuid4 s u))
          ''hello'' u)
     = fst (process_code_query mb' uuid4' (web_runner stage_stub) (snd (new_session uuid4' s' u'))
          ''hello'' u') \<and>
   fst (process_code_query mb uuid4 (web_runner stage_stub)
          (snd (process_code_query mb uuid4 (web_runner stage_stub) (snd (new_session uuid4 s u))
                  ''hello'' u))
          ''hello'' u) = Inr ''stage:ExplanationAgent''"
  by (simp add: process_code_query_stage_stub ensure_session_after_new_session
        ensure_session_after_query)

section \<open>The console front end\<close>

lemma print_events_no_final:
  "\<forall>e\<in>set evs. \<not> is_final_response e \<Longrightarrow> print_events evs = ([], None)"
  by (induction evs) auto

lemma print_events_texts:
  "\<forall>e\<in>set evs. is_final_response e \<longrightarrow> event_text e = Inr (Some t) \<Longrightarrow>
   print_events evs =
     (concat (map (\<lambda>e. [''\<newline>Code Assistant Response:'', t]) (filter is_final_response evs)), None)"
  by (induction evs) (auto simp: py_str_def)

lemma print_events_member:
  "x \<in> set (fst (print_events evs)) \<Longrightarrow>
   x = ''\<newline>Code Assistant Response:'' \<or>
   (\<exists>e\<in>set evs. is_final_response e \<and> (\<exists>v. event_text e = Inr v \<and> x = py_str v))"
proof (induction evs)
  case Nil
  then show ?case by simp
next
  case (Cons e evs)
  then show ?case
    by (auto split: if_splits sum.splits prod.splits)
qed

lemma FALLBACK_not_header:
  "FALLBACK \<noteq> ''\<newline>Code Assistant Response:''" "FALLBACK \<noteq> ''None''"
  "FALLBACK \<noteq> ''\<newline>User Query: '' @ q"
  by (simp_all add: FALLBACK_def)

text \<open>
  C10. \<open>call_agent\<close> has no default for an empty answer. When no event of the run is a
  final response it prints the query and nothing else, and returns \<open>None\<close> if the run
  raised nothing. When the final-response events carry the empty text it prints the
  header and that empty text for each of them. The fallback message of the web front end
  is among the printed texts only if a final-response event itself carries it.
\<close>

theorem call_agent_no_fallback:
  "run store USER_ID SESSION_ID q = (events, failure, store') \<longrightarrow>
   ((\<forall>e\<in>set events. \<not> is_final_response e) \<longrightarrow>
      printed (call_agent run store q) = [''\<newline>User Query: '' @ q] \<and>
      (failure = None \<longrightarrow> returned (call_agent run store q) = Inr ())) \<and>
   ((\<forall>e\<in>set events. is_final_response e \<longrightarrow> event_text e = Inr (Some [])) \<longrightarrow>
      printed (call_agent run store q) =
        (''\<newline>User Query: '' @ q)
          # concat (map (\<lambda>e. [''\<newline>Code Assistant Response:'', []])
                       (filter is_final_response events))) \<and>
   (FALLBACK \<in> set (printed (call_agent run store q)) \<longrightarrow>
      (\<exists>e\<in>set events. is_final_response e \<and> event_text e = Inr (Some FALLBACK)))"
proof (intro impI conjI)
  assume run: "run store USER_ID SESSION_ID q = (events, failure, store')"
  {
    assume nf: "\<forall>e\<in>set events. \<not> is_final_response e"
    with run show "printed (call_agent run store q) = [''\<newline>User Query: '' @ q]"
      by (simp add: call_agent_def print_events_no_final)
    assume "failure = None"
    with run nf show "returned (call_agent run store q) = Inr ()"
      by (simp add: call_agent_def print_events_no_final)
  }
  {
    assume "\<forall>e\<in>set events. is_final_response e \<longrightarrow> event_text e = Inr (Some [])"
    with run show "printed (call_agent run store q) =
        (''\<newline>User Query: '' @ q)
          # concat (map (\<lambda>e. [''\<newline>Code Assistant Response:'', []])
                       (filter is_final_response events))"
      by (simp add: call_agent_def print_events_texts [of events "[]"])
  }
  assume "FALLBACK \<in> set (printed (call_agent run store q))"
  moreover from run have "printed (call_agent run store q)
      = (''\<newline>User Query: '' @ q) # fst (print_events events)"
    by (simp add: call_agent_def split: prod.splits)
  ultimately have "FALLBACK = ''\<newline>User Query: '' @ q \<or> FALLBACK \<in> set (fst (print_events events))"
    by (metis set_ConsD)
  with FALLBACK_not_header(3) have "FALLBACK \<in> set (fst (print_events events))"
    by blast
  from print_events_member [OF this]
  obtain e v where "e \<in> set events" "is_final_response e" "event_text e = Inr v" "FALLBACK = py_str v"
    by (auto simp: FALLBACK_not_header)
  moreover from this have "v = Some FALLBACK"
    by (cases v) (auto simp: py_str_def FALLBACK_not_header)
  ultimately show "\<exists>e\<in>set events. is_final_response e \<and> event_text e = Inr (Some FALLBACK)"
    by auto
qed

text \<open>
  The hypotheses at concrete inputs: the console pipeline with a capability that returns
  the empty text, the console pipeline with a capability that fails at the first stage,
  and a runner whose only event is not a final response.
\<close>

theorem call_agent_no_fallback_witness:
  "printed (call_agent (console_runner silent) console_store ''hello'') =
     [''\<newline>User Query: hello'',
      ''\<newline>Code Assistant Response:'', [], ''\<newline>Code Assistant Response:'', [],
      ''\<newline>Code Assistant Response:'', [], ''\<newline>Code Assistant Response:'', []] \<and>
   FALLBACK \<notin> set (printed (call_agent (console_runner silent) console_store ''hello'')) \<and>
   printed (call_agent (console_runner (failing_at ''CodeUnderstandingAgent'')) console_store
              ''hello'') = [''\<newline>User Query: hello''] \<and>
   printed (call_agent progress_only console_store ''hello'') = [''\<newline>User Query: hello''] \<and>
   returned (call_agent progress_only console_store ''hello'') = Inr ()"
proof -
  let ?ok = "console_runner silent console_store USER_ID SESSION_ID ''hello''"
  let ?ko = "console_runner (failing_at ''CodeUnderstandingAgent'') console_store USER_ID
               SESSION_ID ''hello''"
  have ok: "?ok = (fst ?ok, fst (snd ?ok), snd (snd ?ok))"
    and ko: "?ko = (fst ?ko, fst (snd ?ko), snd (snd ?ko))"
    by simp_all
  have evs: "fst ?ok = [final_event code_understanding_agent [], final_event research_agent [],
      final_event code_generation_agent [], final_event console_explanation_agent []]"
    by (simp add: console_runner_def console_store_def runner_run_def create_session_def
          sub_agents_console_root_agent silent_def new_run_def Let_def)
  have none: "fst ?ko = []"
    by (simp add: console_runner_def console_store_def runner_run_def create_session_def
          sub_agents_console_root_agent failing_at_def stage_names new_run_def Let_def)
  note at_silent = call_agent_no_fallback [of "console_runner silent" console_store "''hello''"
      "fst ?ok" "fst (snd ?ok)" "snd (snd ?ok)"]
  have empty: "\<forall>e\<in>set (fst ?ok). is_final_response e \<longrightarrow> event_text e = Inr (Some [])"
    unfolding evs by (simp add: event_text_final_event)
  from at_silent ok empty
  have "printed (call_agent (console_runner silent) console_store ''hello'') =
        (''\<newline>User Query: '' @ ''hello'')
          # concat (map (\<lambda>e. [''\<newline>Code Assistant Response:'', []])
                       (filter is_final_response (fst ?ok)))"
    by blast
  then have p1: "printed (call_agent (console_runner silent) console_store ''hello'') =
     [''\<newline>User Query: hello'',
      ''\<newline>Code Assistant Response:'', [], ''\<newline>Code Assistant Response:'', [],
      ''\<newline>Code Assistant Response:'', [], ''\<newline>Code Assistant Response:'', []]"
    unfolding evs by (simp add: is_final_final_event)
  have "\<not> (\<exists>e\<in>set (fst ?ok). is_final_response e \<and> event_text e = Inr (Some FALLBACK))"
    unfolding evs by (simp add: event_text_final_event FALLBACK_def)
  with at_silent ok
  have p2: "FALLBACK \<notin> set (printed (call_agent (console_runner silent) console_store ''hello''))"
    by blast
  from call_agent_no_fallback [of "console_runner (failing_at ''CodeUnderstandingAgent'')"
      console_store "''hello''" "fst ?ko" "fst (snd ?ko)" "snd (snd ?ko)"] ko none
  have p3: "printed (call_agent (console_runner (failing_at ''CodeUnderstandingAgent''))
                   console_store ''hello'') = [''\<newline>User Query: '' @ ''hello'']"
    by simp
  let ?po = "progress_only console_store USER_ID SESSION_ID ''hello''"
  have po: "?po = (fst ?po, None, console_store)"
    and nf: "\<forall>e\<in>set (fst ?po). \<not> is_final_response e"
    by (simp_all add: progress_only_def)
  from call_agent_no_fallback [of progress_only console_store "''hello''" "fst ?po" None
      console_store] po nf
  have "printed (call_agent progress_only console_store ''hello'') = [''\<newline>User Query: '' @ ''hello'']"
    and "returned (call_agent progress_only console_store ''hello'') = Inr ()"
    by blast+
  with p1 p2 p3 show ?thesis
    by simp
qed

end
